theory Spec2Isabelle
  imports Main "HOL-Library.AList" "HOL-Library.Sublist"
begin

section \<open>Logging setup of the Cilium agent: \<^verbatim>\<open>common/logging.go\<close>\<close>

text \<open>
  The file configures the process-wide logrus logger: \<^verbatim>\<open>SetupLogging\<close> always installs a
  syslog hook and then walks the requested log drivers, installing a fluentd hook for
  each \<^verbatim>\<open>"fluentd"\<close> it meets. The model below follows the Go source function by
  function.

  \<^item> Go maps are reference objects, so the model keeps them in a store (\<open>heap\<close>): a map
    value is an address, \<^verbatim>\<open>make\<close> allocates a fresh address, \<^verbatim>\<open>m[k] = v\<close> writes
    to the store. A stored map is an association list with distinct keys; its order is
    the order in which \<^verbatim>\<open>range\<close> visits the entries. Go leaves that order open: the
    theorems hold for every order of the caller's map. A map made by
    \<^verbatim>\<open>getLogDriverConfig\<close> is visited in the order it was filled; the order decides
    only which key an error names when several keys are unsupported (Go may name any of
    them, the model names the first). A nil map reads like an empty one, and the code
    never writes to a map it was handed, so nil is represented by any empty map.
  \<^item> \<^verbatim>\<open>logrus.Fatal\<close> logs its message and ends the process with \<^verbatim>\<open>os.Exit(1)\<close>:
    a call either returns (\<open>Return\<close>) or ends the process (\<open>Fatal\<close>, with what was
    logged).
  \<^item> \<^verbatim>\<open>fmt.Errorf\<close> values are kept as the format and its arguments (type \<open>error\<close>).
  \<^item> What lies outside the program is a parameter (\<open>env\<close>): the environment variable
    read by \<^verbatim>\<open>setupFormatter\<close>, whether the syslog daemon and the fluentd collector
    accept the connection, and Go's \<^verbatim>\<open>regexp\<close> package on the patterns not covered by
    the model of \<^verbatim>\<open>regexp.MatchString\<close> below.
\<close>

subsection \<open>Types of logrus, log/syslog and the hooks\<close>

text \<open>
  \<^verbatim>\<open>logrus.Level\<close> is an unsigned integer type whose six constants start at
  \<^verbatim>\<open>PanicLevel = iota\<close>. The code only compares levels for equality, so the width of
  the type plays no part and the model uses \<open>nat\<close>.
\<close>

type_synonym Level = nat

definition PanicLevel :: Level where [simp]: "PanicLevel = 0"
definition FatalLevel :: Level where [simp]: "FatalLevel = 1"
definition ErrorLevel :: Level where [simp]: "ErrorLevel = 2"
definition WarnLevel :: Level where [simp]: "WarnLevel = 3"
definition InfoLevel :: Level where [simp]: "InfoLevel = 4"
definition DebugLevel :: Level where [simp]: "DebugLevel = 5"

text \<open>\<^verbatim>\<open>logrus.AllLevels\<close>: the six levels, most severe first.\<close>

definition AllLevels :: "Level list" where
  "AllLevels = [PanicLevel, FatalLevel, ErrorLevel, WarnLevel, InfoLevel, DebugLevel]"

text \<open>\<^verbatim>\<open>syslog.Priority\<close> is an \<^verbatim>\<open>int\<close>; the severities are 0 (\<^verbatim>\<open>LOG_EMERG\<close>) to 7.\<close>

type_synonym Priority = int

definition LOG_EMERG :: Priority where [simp]: "LOG_EMERG = 0"
definition LOG_ALERT :: Priority where [simp]: "LOG_ALERT = 1"
definition LOG_CRIT :: Priority where [simp]: "LOG_CRIT = 2"
definition LOG_ERR :: Priority where [simp]: "LOG_ERR = 3"
definition LOG_WARNING :: Priority where [simp]: "LOG_WARNING = 4"
definition LOG_NOTICE :: Priority where [simp]: "LOG_NOTICE = 5"
definition LOG_INFO :: Priority where [simp]: "LOG_INFO = 6"
definition LOG_DEBUG :: Priority where [simp]: "LOG_DEBUG = 7"

text \<open>
  The errors the code builds or passes on:
  \<^item> \<open>NotValidLevel lvl\<close>: \<^verbatim>\<open>"not a valid logrus Level: %q"\<close> of \<^verbatim>\<open>logrus.ParseLevel\<close>;
  \<^item> \<open>UnsupportedOption k logDriver\<close>: \<^verbatim>\<open>"provided configuration value %q is not
    supported as a logging option for log driver %s"\<close> of \<^verbatim>\<open>validateOpts\<close>;
  \<^item> \<open>UnsupportedDriver logger\<close>: \<^verbatim>\<open>"provided log driver %q is not a supported log
    driver"\<close> of \<^verbatim>\<open>SetupLogging\<close>.
\<close>

datatype error =
    NotValidLevel string
  | UnsupportedOption string string
  | UnsupportedDriver string

text \<open>
  What \<^verbatim>\<open>logrus.Fatal\<close> was called with when the process ended: the error of
  \<^verbatim>\<open>ParseLevel\<close>, the failure of \<^verbatim>\<open>NewSyslogHook\<close>, the error of \<^verbatim>\<open>strconv.Atoi\<close>
  on the port text, the failure of \<^verbatim>\<open>logrus_fluent.New\<close>, or the key and log driver
  whose pattern \<^verbatim>\<open>regexp.MatchString\<close> rejected.
\<close>

datatype fatal =
    FatalError error
  | FatalSyslogHook
  | FatalAtoi string
  | FatalFluentHook
  | FatalParsingKey string string

datatype 'a result = Return 'a | Fatal fatal

text \<open>The two writers the code knows: \<^verbatim>\<open>os.Stderr\<close> (the default) and \<^verbatim>\<open>ioutil.Discard\<close>.\<close>

datatype Writer = Stderr | Discard

text \<open>The fields of \<^verbatim>\<open>logrus.TextFormatter\<close> that \<^verbatim>\<open>setupFormatter\<close> sets.\<close>

record TextFormatter =
  DisableColors :: bool
  DisableTimestamp :: bool
  FullTimestamp :: bool
  TimestampFormat :: string

text \<open>
  An installed hook. \<open>SyslogHook priority tag\<close> is the result of
  \<^verbatim>\<open>NewSyslogHook("", "", priority, tag)\<close>. \<open>FluentHook host port tag levels\<close> is
  the result of \<^verbatim>\<open>logrus_fluent.New(host, port)\<close> after \<^verbatim>\<open>SetTag\<close> (if called) and
  \<^verbatim>\<open>SetLevels\<close>.
\<close>

datatype Hook =
    SyslogHook Priority string
  | FluentHook string int "string option" "Level list"

type_synonym optmap = "(string \<times> string) list"

text \<open>
  The state: the store of map objects and the standard logger of logrus (its output, its
  formatter, its level and the hooks in the order \<^verbatim>\<open>AddHook\<close> received them).
\<close>

record world =
  heap :: "optmap list"
  std_Out :: Writer
  std_Formatter :: TextFormatter
  std_Level :: Level
  std_Hooks :: "Hook list"

record env =
  INITSYSTEM :: string
  regexp_other :: "string \<Rightarrow> string \<Rightarrow> bool option"
  syslog_Dial :: "Priority \<Rightarrow> string \<Rightarrow> bool"
  fluent_New :: "string \<Rightarrow> int \<Rightarrow> bool"

subsection \<open>The store of maps\<close>

text \<open>Reading the map at an address; an address that holds nothing reads as a nil map.\<close>

definition deref :: "world \<Rightarrow> nat \<Rightarrow> optmap" where
  "deref s a = (if a < length (heap s) then heap s ! a else [])"

text \<open>\<^verbatim>\<open>make(map[string]string)\<close>: a fresh, empty map.\<close>

definition make_map :: "world \<Rightarrow> nat \<times> world" where
  "make_map s = (length (heap s), s\<lparr>heap := heap s @ [[]]\<rparr>)"

text \<open>\<^verbatim>\<open>m[k] = v\<close>: the value of an existing key is replaced, a new key is added.\<close>

definition map_store :: "nat \<Rightarrow> string \<Rightarrow> string \<Rightarrow> world \<Rightarrow> world" where
  "map_store a k v s = s\<lparr>heap := (heap s)[a := AList.update k v (deref s a)]\<rparr>"

text \<open>\<^verbatim>\<open>v, ok := m[k]\<close> is \<open>map_of m k\<close>; \<^verbatim>\<open>m[k]\<close> on a \<^verbatim>\<open>map[string]bool\<close> gives
  \<^verbatim>\<open>false\<close> for a missing key.\<close>

definition lookup_bool :: "(string \<times> bool) list \<Rightarrow> string \<Rightarrow> bool" where
  "lookup_bool m k = (case map_of m k of Some b \<Rightarrow> b | None \<Rightarrow> False)"

subsection \<open>Library functions\<close>

text \<open>
  \<^verbatim>\<open>strings.ToLower\<close>, as far as a comparison of its result with ASCII text can tell:
  ASCII capitals are lowered, and the two bytes of U+0130 (the only character outside
  ASCII that Go lowers to a letter of a level name) become \<open>i\<close>. Other bytes are kept.
\<close>

definition lower_byte :: "char \<Rightarrow> char" where
  "lower_byte c = (let n = (of_char c :: nat) in if 65 \<le> n \<and> n \<le> 90 then char_of (n + 32) else c)"

fun ToLower :: "string \<Rightarrow> string" where
  "ToLower [] = []"
| "ToLower [a] = [lower_byte a]"
| "ToLower (a # b # cs) =
     (if a = CHR 0xC4 \<and> b = CHR 0xB0 then CHR ''i'' # ToLower cs
      else lower_byte a # ToLower (b # cs))"

text \<open>\<^verbatim>\<open>logrus.ParseLevel\<close>: a switch on the lowered text.\<close>

definition ParseLevel :: "string \<Rightarrow> error + Level" where
  "ParseLevel lvl =
     (let l = ToLower lvl in
      if l = ''panic'' then Inr PanicLevel
      else if l = ''fatal'' then Inr FatalLevel
      else if l = ''error'' then Inr ErrorLevel
      else if l = ''warn'' \<or> l = ''warning'' then Inr WarnLevel
      else if l = ''info'' then Inr InfoLevel
      else if l = ''debug'' then Inr DebugLevel
      else Inl (NotValidLevel lvl))"

text \<open>
  \<^verbatim>\<open>strconv.Atoi\<close> on a 64-bit platform: an optional sign, then one or more decimal
  digits; a value outside the range of \<^verbatim>\<open>int\<close> is an error.
\<close>

definition isDigit :: "char \<Rightarrow> bool" where
  "isDigit c = (let n = (of_char c :: nat) in 48 \<le> n \<and> n \<le> 57)"

definition digitsValue :: "string \<Rightarrow> int" where
  "digitsValue ds = foldl (\<lambda>acc c. 10 * acc + (int (of_char c) - 48)) 0 ds"

definition Atoi :: "string \<Rightarrow> int option" where
  "Atoi s =
     (let neg = (s \<noteq> [] \<and> hd s = CHR ''-'');
          ds = (if s \<noteq> [] \<and> (hd s = CHR ''-'' \<or> hd s = CHR ''+'') then tl s else s)
      in if ds = [] \<or> \<not> list_all isDigit ds then None
         else let n = digitsValue ds in
           if neg then (if n \<le> 2 ^ 63 then Some (- n) else None)
           else (if n < 2 ^ 63 then Some n else None))"

text \<open>
  \<^verbatim>\<open>net.SplitHostPort\<close>: the port is what follows the last colon; the host is what
  precedes it, without the square brackets of an IPv6 literal. \<open>None\<close> is the
  \<^verbatim>\<open>AddrError\<close>, with which the port is empty. (Releases of Go differ on a host with
  a \<^verbatim>\<open>%\<close> zone outside brackets; the model accepts it, as the current library does,
  and no theorem depends on it.)
\<close>

definition indexByte :: "string \<Rightarrow> char \<Rightarrow> nat option" where
  "indexByte s c = (if c \<in> set s then Some (length (takeWhile (\<lambda>x. x \<noteq> c) s)) else None)"

definition lastIndexByte :: "string \<Rightarrow> char \<Rightarrow> nat option" where
  "lastIndexByte s c =
     (if c \<in> set s then Some (length s - 1 - length (takeWhile (\<lambda>x. x \<noteq> c) (rev s))) else None)"

definition SplitHostPort :: "string \<Rightarrow> (string \<times> string) option" where
  "SplitHostPort hostport =
     (case lastIndexByte hostport CHR '':'' of
        None \<Rightarrow> None
      | Some i \<Rightarrow>
          if hd hostport = CHR ''[''
          then (case indexByte hostport CHR '']'' of
                  None \<Rightarrow> None
                | Some e \<Rightarrow>
                    if e + 1 = i
                       \<and> CHR ''['' \<notin> set (drop 1 hostport)
                       \<and> CHR '']'' \<notin> set (drop (e + 1) hostport)
                    then Some (take (e - 1) (drop 1 hostport), drop (i + 1) hostport)
                    else None)
          else if CHR '':'' \<in> set (take i hostport)
                  \<or> CHR ''['' \<in> set hostport \<or> CHR '']'' \<in> set hostport
               then None
               else Some (take i hostport, drop (i + 1) hostport))"

text \<open>
  \<^verbatim>\<open>regexp.MatchString(pattern, s)\<close> compiles the pattern and reports whether \<open>s\<close>
  contains a match of it anywhere (the search is not anchored). The pattern the code
  builds is \<^verbatim>\<open>logDriver + ".*"\<close>. The model knows two kinds of pattern:
  \<^item> a pattern that starts with one of the repetition operators \<^verbatim>\<open>*\<close>, \<^verbatim>\<open>+\<close>, \<^verbatim>\<open>?\<close>
    does not compile ("missing argument to repetition operator"): the result is \<open>None\<close>,
    the error;
  \<^item> when the log driver is \<open>plain\<close>, that is made of ASCII bytes none of which is a
    metacharacter of Go's syntax (those that \<^verbatim>\<open>regexp.QuoteMeta\<close> escapes), the pattern
    compiles, stands for the log driver's text followed by any run of characters, and so
    matches \<open>s\<close> exactly when \<open>s\<close> contains the log driver's text.
  Every other pattern is left to \<open>regexp_other\<close> of the environment.
\<close>

definition regexp_meta :: string where
  "regexp_meta = CHR 0x5C # ''.+*?()|[]{}^$''"

definition plain :: "string \<Rightarrow> bool" where
  "plain d = list_all (\<lambda>c. (of_char c :: nat) < 128 \<and> c \<notin> set regexp_meta) d"

fun contains :: "string \<Rightarrow> string \<Rightarrow> bool" where
  "contains [] sub = (sub = [])"
| "contains (c # cs) sub = (prefix sub (c # cs) \<or> contains cs sub)"

definition regexp_MatchString :: "env \<Rightarrow> string \<Rightarrow> string \<Rightarrow> bool option" where
  "regexp_MatchString e pattern s =
     (let n = length pattern - 2 in
      if pattern \<noteq> [] \<and> hd pattern \<in> set ''*+?'' then None
      else if 2 \<le> length pattern \<and> drop n pattern = ''.*'' \<and> plain (take n pattern)
      then Some (contains s (take n pattern))
      else regexp_other e pattern s)"

subsection \<open>The program\<close>

text \<open>
  The three tables of supported options and the table of syslog priorities.
  (\<^verbatim>\<open>setupLogstash\<close> is not modelled: its only call is commented out in the source, so no
  run reaches it and \<^verbatim>\<open>"logstash"\<close> is handled by the default branch of the switch.)
\<close>

definition syslogOpts :: "(string \<times> bool) list" where
  "syslogOpts = [(''syslog.level'', True)]"

definition fluentDOpts :: "(string \<times> bool) list" where
  "fluentDOpts = [(''fluentd.address'', True), (''fluentd.tag'', True), (''fluentd.level'', True)]"

definition logstashOpts :: "(string \<times> bool) list" where
  "logstashOpts = [(''logstash.address'', True), (''logstash.level'', True), (''logstash.protocol'', True)]"

definition syslogLevelMap :: "(Level \<times> Priority) list" where
  "syslogLevelMap =
     [(PanicLevel, LOG_ALERT), (FatalLevel, LOG_CRIT), (ErrorLevel, LOG_ERR),
      (WarnLevel, LOG_WARNING), (InfoLevel, LOG_INFO), (DebugLevel, LOG_DEBUG)]"

text \<open>\<^verbatim>\<open>syslogLevelMap[level]\<close>: a missing key gives the zero priority.\<close>

definition syslogLevelMap_at :: "Level \<Rightarrow> Priority" where
  "syslogLevelMap_at level = (case map_of syslogLevelMap level of Some p \<Rightarrow> p | None \<Rightarrow> 0)"

text \<open>
  \<^verbatim>\<open>setFireLevels\<close>. The default branch builds an error with \<^verbatim>\<open>fmt.Errorf\<close>, drops it
  and returns the nil slice, here the empty list.
\<close>

definition setFireLevels :: "Level \<Rightarrow> Level list" where
  "setFireLevels level =
     (if level = PanicLevel then [PanicLevel]
      else if level = FatalLevel then [PanicLevel, FatalLevel]
      else if level = ErrorLevel then [PanicLevel, FatalLevel, ErrorLevel]
      else if level = WarnLevel then [PanicLevel, FatalLevel, ErrorLevel, WarnLevel]
      else if level = InfoLevel then [PanicLevel, FatalLevel, ErrorLevel, WarnLevel, InfoLevel]
      else if level = DebugLevel
        then [PanicLevel, FatalLevel, ErrorLevel, WarnLevel, InfoLevel, DebugLevel]
      else [])"

text \<open>
  \<^verbatim>\<open>validateOpts\<close>: the map is given by its entries in the order of the \<^verbatim>\<open>range\<close>;
  \<open>None\<close> is the nil error.
\<close>

fun validateOpts :: "string \<Rightarrow> optmap \<Rightarrow> (string \<times> bool) list \<Rightarrow> error option" where
  "validateOpts logDriver [] supportedOpts = None"
| "validateOpts logDriver ((k, v) # rest) supportedOpts =
     (if \<not> lookup_bool supportedOpts k then Some (UnsupportedOption k logDriver)
      else validateOpts logDriver rest supportedOpts)"

text \<open>
  \<^verbatim>\<open>getLogDriverConfig\<close>: \<open>getLogDriverConfig_range\<close> is the loop over the entries of
  \<^verbatim>\<open>logOpts\<close>, writing to the map \<^verbatim>\<open>keysToValidate\<close> made before it.
\<close>

fun getLogDriverConfig_range ::
  "env \<Rightarrow> string \<Rightarrow> optmap \<Rightarrow> nat \<Rightarrow> world \<Rightarrow> nat result \<times> world" where
  "getLogDriverConfig_range e logDriver [] keysToValidate s = (Return keysToValidate, s)"
| "getLogDriverConfig_range e logDriver ((k, v) # rest) keysToValidate s =
     (case regexp_MatchString e (logDriver @ ''.*'') k of
        None \<Rightarrow> (Fatal (FatalParsingKey k logDriver), s)
      | Some ok \<Rightarrow>
          if ok
          then getLogDriverConfig_range e logDriver rest keysToValidate
                 (map_store keysToValidate k v s)
          else getLogDriverConfig_range e logDriver rest keysToValidate s)"

definition getLogDriverConfig :: "env \<Rightarrow> string \<Rightarrow> nat \<Rightarrow> world \<Rightarrow> nat result \<times> world" where
  "getLogDriverConfig e logDriver logOpts s =
     (case make_map s of
        (keysToValidate, s1) \<Rightarrow>
          getLogDriverConfig_range e logDriver (deref s logOpts) keysToValidate s1)"

text \<open>\<^verbatim>\<open>setupFormatter\<close>; \<open>RFC3339\<close> is \<^verbatim>\<open>time.RFC3339\<close>.\<close>

definition RFC3339 :: string where
  "RFC3339 = ''2006-01-02T15:04:05Z07:00''"

definition setupFormatter :: "env \<Rightarrow> world \<Rightarrow> world" where
  "setupFormatter e s =
     (let fileFormat = \<lparr>DisableColors = True, DisableTimestamp = False,
                        FullTimestamp = False, TimestampFormat = []\<rparr>
      in s\<lparr>std_Formatter :=
             (if INITSYSTEM e = ''SYSTEMD''
              then fileFormat\<lparr>DisableTimestamp := True, FullTimestamp := True\<rparr>
              else fileFormat\<lparr>TimestampFormat := RFC3339\<rparr>)\<rparr>)"

text \<open>\<^verbatim>\<open>setupSyslog\<close>.\<close>

definition setupSyslog :: "env \<Rightarrow> nat \<Rightarrow> string \<Rightarrow> world \<Rightarrow> unit result \<times> world" where
  "setupSyslog e logOpts tag s =
     (let logLevel = (case map_of (deref s logOpts) ''syslog.level'' of
                        Some l \<Rightarrow> l | None \<Rightarrow> ''info'')
      in case ParseLevel logLevel of
           Inl err \<Rightarrow> (Fatal (FatalError err), s)
         | Inr level \<Rightarrow>
             let s1 = s\<lparr>std_Level := level\<rparr> in
             if syslog_Dial e (syslogLevelMap_at level) tag
             then (Return (), s1\<lparr>std_Hooks := std_Hooks s1 @ [SyslogHook (syslogLevelMap_at level) tag]\<rparr>)
             else (Fatal FatalSyslogHook, s1))"

text \<open>
  \<^verbatim>\<open>setupFluentD\<close>. The error of \<^verbatim>\<open>net.SplitHostPort\<close> is overwritten by the next
  assignment and never read: on that error the port text is empty, and \<^verbatim>\<open>Atoi\<close> fails
  on it.
\<close>

definition setupFluentD :: "env \<Rightarrow> nat \<Rightarrow> world \<Rightarrow> unit result \<times> world" where
  "setupFluentD e logOpts s =
     (let logLevel = (case map_of (deref s logOpts) ''fluentd.level'' of
                        Some l \<Rightarrow> l | None \<Rightarrow> ''info'')
      in case ParseLevel logLevel of
           Inl err \<Rightarrow> (Fatal (FatalError err), s)
         | Inr level \<Rightarrow>
             let hostAndPort = (case map_of (deref s logOpts) ''fluentd.address'' of
                                  Some a \<Rightarrow> a | None \<Rightarrow> ''localhost:24224'');
                 (host, strPort) = (case SplitHostPort hostAndPort of
                                      Some hp \<Rightarrow> hp | None \<Rightarrow> ([], []))
             in (case Atoi strPort of
                   None \<Rightarrow> (Fatal (FatalAtoi strPort), s)
                 | Some port \<Rightarrow>
                     if fluent_New e host port
                     then (Return (),
                           s\<lparr>std_Hooks := std_Hooks s @
                                [FluentHook host port (map_of (deref s logOpts) ''fluentd.tag'')
                                   (setFireLevels level)]\<rparr>)
                     else (Fatal FatalFluentHook, s)))"

text \<open>
  \<^verbatim>\<open>SetupLogging\<close>: \<open>SetupLogging_range\<close> is the loop over \<^verbatim>\<open>loggers\<close>. The result
  \<open>Return None\<close> is the nil error.
\<close>

fun SetupLogging_range ::
  "env \<Rightarrow> string list \<Rightarrow> nat \<Rightarrow> world \<Rightarrow> error option result \<times> world" where
  "SetupLogging_range e [] logOpts s = (Return None, s)"
| "SetupLogging_range e (logger # rest) logOpts s =
     (case getLogDriverConfig e logger logOpts s of
        (Fatal f, s1) \<Rightarrow> (Fatal f, s1)
      | (Return valuesToValidate, s1) \<Rightarrow>
          if logger = ''syslog'' then SetupLogging_range e rest logOpts s1
          else if logger = ''fluentd'' then
            (case validateOpts logger (deref s1 valuesToValidate) fluentDOpts of
               Some err \<Rightarrow> (Return (Some err), s1)
             | None \<Rightarrow>
                 (case setupFluentD e valuesToValidate s1 of
                    (Fatal f, s2) \<Rightarrow> (Fatal f, s2)
                  | (Return u, s2) \<Rightarrow> SetupLogging_range e rest logOpts s2))
          else (Return (Some (UnsupportedDriver logger)), s1))"

definition SetupLogging ::
  "env \<Rightarrow> string list \<Rightarrow> nat \<Rightarrow> string \<Rightarrow> world \<Rightarrow> error option result \<times> world" where
  "SetupLogging e loggers logOpts tag s =
     (case getLogDriverConfig e ''syslog'' logOpts (setupFormatter e s) of
        (Fatal f, s1) \<Rightarrow> (Fatal f, s1)
      | (Return valuesToValidate, s1) \<Rightarrow>
          (case validateOpts ''syslog'' (deref s1 valuesToValidate) syslogOpts of
             Some err \<Rightarrow> (Return (Some err), s1)
           | None \<Rightarrow>
               (case setupSyslog e valuesToValidate tag (s1\<lparr>std_Out := Discard\<rparr>) of
                  (Fatal f, s2) \<Rightarrow> (Fatal f, s2)
                | (Return u, s2) \<Rightarrow> SetupLogging_range e loggers logOpts s2)))"

subsection \<open>The specification's words\<close>

text \<open>
  The specification's at-or-above enumeration: all levels at least as severe as \<open>l\<close>
  (a smaller number is a more severe level), most severe first.
\<close>

definition levels_at_or_above :: "Level \<Rightarrow> Level list" where
  "levels_at_or_above l = filter (\<lambda>x. x \<le> l) AllLevels"

text \<open>
  The specification's option partitioner: the entries whose key starts with the prefix
  followed by a dot.
\<close>

definition prefix_partition :: "string \<Rightarrow> optmap \<Rightarrow> optmap" where
  "prefix_partition p m = filter (\<lambda>(k, v). prefix (p @ ''.'') k) m"

subsection \<open>Definitions for the proofs\<close>

text \<open>The log driver a hook belongs to.\<close>

fun hook_driver :: "Hook \<Rightarrow> string" where
  "hook_driver (SyslogHook p t) = ''syslog''"
| "hook_driver (FluentHook h p t ls) = ''fluentd''"

text \<open>
  What the loop of \<^verbatim>\<open>getLogDriverConfig\<close> does to the map it fills, without the store:
  \<open>acc\<close> is the map so far, and the result is the map at the end of the loop (or at the
  call of \<^verbatim>\<open>logrus.Fatal\<close>) with what was logged there.
\<close>

fun matching_entries :: "env \<Rightarrow> string \<Rightarrow> optmap \<Rightarrow> optmap \<Rightarrow> fatal option \<times> optmap" where
  "matching_entries e logDriver [] acc = (None, acc)"
| "matching_entries e logDriver ((k, v) # rest) acc =
     (case regexp_MatchString e (logDriver @ ''.*'') k of
        None \<Rightarrow> (Some (FatalParsingKey k logDriver), acc)
      | Some ok \<Rightarrow> matching_entries e logDriver rest (if ok then AList.update k v acc else acc))"

definition outcome :: "fatal option \<Rightarrow> 'a \<Rightarrow> 'a result" where
  "outcome fo x = (case fo of None \<Rightarrow> Return x | Some f \<Rightarrow> Fatal f)"

definition syslog_entries :: "env \<Rightarrow> optmap \<Rightarrow> optmap" where
  "syslog_entries e m = snd (matching_entries e ''syslog'' m [])"

definition syslog_level :: "optmap \<Rightarrow> string" where
  "syslog_level m = (case map_of m ''syslog.level'' of Some l \<Rightarrow> l | None \<Rightarrow> ''info'')"

text \<open>The hook that \<^verbatim>\<open>setupFluentD\<close> adds for the options \<open>m\<close>, or what it logs before
  ending the process.\<close>

definition fluentD_hook :: "env \<Rightarrow> optmap \<Rightarrow> fatal + Hook" where
  "fluentD_hook e m =
     (let logLevel = (case map_of m ''fluentd.level'' of Some l \<Rightarrow> l | None \<Rightarrow> ''info'')
      in case ParseLevel logLevel of
           Inl err \<Rightarrow> Inl (FatalError err)
         | Inr level \<Rightarrow>
             let hostAndPort = (case map_of m ''fluentd.address'' of
                                  Some a \<Rightarrow> a | None \<Rightarrow> ''localhost:24224'');
                 (host, strPort) = (case SplitHostPort hostAndPort of
                                      Some hp \<Rightarrow> hp | None \<Rightarrow> ([], []))
             in (case Atoi strPort of
                   None \<Rightarrow> Inl (FatalAtoi strPort)
                 | Some port \<Rightarrow>
                     if fluent_New e host port
                     then Inr (FluentHook host port (map_of m ''fluentd.tag'') (setFireLevels level))
                     else Inl FatalFluentHook))"

text \<open>
  The loop of \<^verbatim>\<open>SetupLogging\<close> over the options \<open>m\<close>, without the state: its result,
  the hooks it adds and the maps it makes, in order.
\<close>

fun range_summary ::
  "env \<Rightarrow> string list \<Rightarrow> optmap \<Rightarrow> error option result \<times> Hook list \<times> optmap list" where
  "range_summary e [] m = (Return None, [], [])"
| "range_summary e (logger # rest) m =
     (case matching_entries e logger m [] of
        (Some f, acc) \<Rightarrow> (Fatal f, [], [acc])
      | (None, acc) \<Rightarrow>
          if logger = ''syslog''
          then (case range_summary e rest m of (r, hs, ms) \<Rightarrow> (r, hs, acc # ms))
          else if logger = ''fluentd'' then
            (case validateOpts logger acc fluentDOpts of
               Some err \<Rightarrow> (Return (Some err), [], [acc])
             | None \<Rightarrow>
                 (case fluentD_hook e acc of
                    Inl f \<Rightarrow> (Fatal f, [], [acc])
                  | Inr h \<Rightarrow>
                      (case range_summary e rest m of (r, hs, ms) \<Rightarrow> (r, h # hs, acc # ms))))
          else (Return (Some (UnsupportedDriver logger)), [], [acc]))"

text \<open>
  An environment and a state for the examples: every connection is accepted and the
  variable \<^verbatim>\<open>INITSYSTEM\<close> is unset (the examples use plain log drivers only, so
  \<open>regexp_other\<close> is never asked); the standard logger is as logrus creates it, and the
  store holds the caller's options map at address 0.
\<close>

definition env_ok :: env where
  "env_ok = \<lparr>INITSYSTEM = [], regexp_other = (\<lambda>pattern s. None),
              syslog_Dial = (\<lambda>priority tag. True), fluent_New = (\<lambda>host port. True)\<rparr>"

definition init_world :: "optmap \<Rightarrow> world" where
  "init_world m =
     \<lparr>heap = [m], std_Out = Stderr,
      std_Formatter = \<lparr>DisableColors = False, DisableTimestamp = False,
                        FullTimestamp = False, TimestampFormat = []\<rparr>,
      std_Level = InfoLevel, std_Hooks = []\<rparr>"

lemmas eval_defs =
  SetupLogging_def getLogDriverConfig_def make_map_def deref_def map_store_def
  regexp_MatchString_def plain_def regexp_meta_def lookup_bool_def syslogOpts_def
  fluentDOpts_def setupSyslog_def setupFluentD_def ParseLevel_def lower_byte_def
  SplitHostPort_def lastIndexByte_def indexByte_def Atoi_def isDigit_def digitsValue_def
  syslogLevelMap_at_def syslogLevelMap_def setFireLevels_def setupFormatter_def
  env_ok_def init_world_def Let_def RFC3339_def

section \<open>Properties\<close>

subsection \<open>The store and the option partitioner\<close>

lemma deref_map_store:
  "a < length (heap s) \<Longrightarrow> deref (map_store a k v s) a = AList.update k v (deref s a)"
  by (simp add: deref_def map_store_def)

lemma deref_valid: "a < length (heap s) \<Longrightarrow> deref s a = heap s ! a"
  by (simp add: deref_def)

lemma deref_heap_snoc [simp]: "deref (s\<lparr>heap := h @ [m]\<rparr>) (length h) = m"
  by (simp add: deref_def)

text \<open>The loop of \<^verbatim>\<open>getLogDriverConfig\<close> writes \<open>matching_entries\<close> to the map it fills
  and touches nothing else.\<close>

lemma range_matching:
  "kv < length (heap s) \<Longrightarrow>
   getLogDriverConfig_range e d m kv s =
     (outcome (fst (matching_entries e d m (heap s ! kv))) kv,
      s\<lparr>heap := (heap s)[kv := snd (matching_entries e d m (heap s ! kv))]\<rparr>)"
proof (induction m arbitrary: s)
  case Nil
  then show ?case by (simp add: outcome_def)
next
  case (Cons kv' m)
  obtain k v where kv': "kv' = (k, v)" by (cases kv')
  show ?case
  proof (cases "regexp_MatchString e (d @ ''.*'') k")
    case None
    then show ?thesis using Cons.prems by (simp add: kv' outcome_def)
  next
    case (Some ok)
    show ?thesis
    proof (cases ok)
      case True
      have "kv < length (heap (map_store kv k v s))"
        using Cons.prems by (simp add: map_store_def)
      from Cons.IH[OF this] show ?thesis
        using Cons.prems Some True by (simp add: kv' map_store_def deref_def)
    next
      case False
      from Cons.IH[OF Cons.prems] show ?thesis
        using Some False by (simp add: kv')
    qed
  qed
qed

lemma getLogDriverConfig_matching:
  "getLogDriverConfig e d a s =
     (outcome (fst (matching_entries e d (deref s a) [])) (length (heap s)),
      s\<lparr>heap := heap s @ [snd (matching_entries e d (deref s a) [])]\<rparr>)"
proof -
  let ?s1 = "s\<lparr>heap := heap s @ [[]]\<rparr>"
  have "length (heap s) < length (heap ?s1)" by simp
  from range_matching[OF this, of e d "deref s a"] show ?thesis
    by (simp add: getLogDriverConfig_def make_map_def)
qed

lemma getLogDriverConfig_logger:
  "std_Hooks (snd (getLogDriverConfig e d a s)) = std_Hooks s \<and>
   std_Level (snd (getLogDriverConfig e d a s)) = std_Level s \<and>
   std_Out (snd (getLogDriverConfig e d a s)) = std_Out s \<and>
   std_Formatter (snd (getLogDriverConfig e d a s)) = std_Formatter s"
  by (simp add: getLogDriverConfig_matching)

text \<open>\<open>contains s sub\<close> says that \<open>sub\<close> occurs in \<open>s\<close> as a block.\<close>

lemma contains_iff: "contains s sub \<longleftrightarrow> (\<exists>ps ss. s = ps @ sub @ ss)"
proof (induction s)
  case Nil
  then show ?case by auto
next
  case (Cons c cs)
  show ?case
  proof
    assume "contains (c # cs) sub"
    then consider "prefix sub (c # cs)" | "contains cs sub" by auto
    then show "\<exists>ps ss. c # cs = ps @ sub @ ss"
    proof cases
      case 1
      then obtain ss where "c # cs = sub @ ss" by (auto simp: prefix_def)
      then have "c # cs = [] @ sub @ ss" by simp
      then show ?thesis by blast
    next
      case 2
      with Cons.IH obtain ps ss where "cs = ps @ sub @ ss" by blast
      then have "c # cs = (c # ps) @ sub @ ss" by simp
      then show ?thesis by blast
    qed
  next
    assume "\<exists>ps ss. c # cs = ps @ sub @ ss"
    then obtain ps ss where eq: "c # cs = ps @ sub @ ss" by blast
    show "contains (c # cs) sub"
    proof (cases ps)
      case Nil
      with eq have "prefix sub (c # cs)" by (simp add: prefix_def)
      then show ?thesis by simp
    next
      case (Cons p ps')
      with eq have "cs = ps' @ sub @ ss" by simp
      with Cons.IH have "contains cs sub" by blast
      then show ?thesis by simp
    qed
  qed
qed

lemma prefix_contains: "prefix sub s \<Longrightarrow> contains s sub"
  by (cases s) (auto)

text \<open>For a plain log driver the pattern always compiles, and the partitioner keeps the
  entries whose key contains the log driver's text.\<close>

lemma MatchString_plain:
  assumes "plain d"
  shows "regexp_MatchString e (d @ ''.*'') k = Some (contains k d)"
proof -
  have "hd (d @ ''.*'') \<notin> set ''*+?''"
    using assms by (cases d) (auto simp: plain_def regexp_meta_def)
  then show ?thesis
    using assms by (simp add: regexp_MatchString_def)
qed

lemma matching_plain_gen:
  "plain d \<Longrightarrow> distinct (map fst (acc @ m)) \<Longrightarrow>
   matching_entries e d m acc = (None, acc @ filter (\<lambda>(k, v). contains k d) m)"
proof (induction m arbitrary: acc)
  case Nil
  then show ?case by simp
next
  case (Cons kv m)
  obtain k v where kv: "kv = (k, v)" by (cases kv)
  show ?case
  proof (cases "contains k d")
    case True
    have notin: "k \<notin> fst ` set acc" using Cons.prems(2) by (auto simp: kv)
    have upd: "AList.update k v acc = acc @ [(k, v)]"
      using notin by (induction acc) auto
    have "distinct (map fst ((acc @ [(k, v)]) @ m))" using Cons.prems(2) by (simp add: kv)
    from Cons.IH[OF Cons.prems(1) this] show ?thesis
      using True Cons.prems(1) by (simp add: kv MatchString_plain upd)
  next
    case False
    have "distinct (map fst (acc @ m))" using Cons.prems(2) by (simp add: kv)
    from Cons.IH[OF Cons.prems(1) this] show ?thesis
      using False Cons.prems(1) by (simp add: kv MatchString_plain)
  qed
qed

lemma matching_plain_fst: "plain d \<Longrightarrow> fst (matching_entries e d m acc) = None"
  by (induction m arbitrary: acc) (auto simp: MatchString_plain)

lemma plain_syslog: "plain ''syslog''"
  by (simp add: plain_def regexp_meta_def)

lemma getLogDriverConfig_plain_Return:
  "plain d \<Longrightarrow> fst (getLogDriverConfig e d a s) = Return (length (heap s))"
  by (simp add: getLogDriverConfig_matching matching_plain_fst outcome_def)

lemma getLogDriverConfig_plain:
  assumes "plain p" and "distinct (map fst (deref s a))"
  shows "getLogDriverConfig e p a s =
           (Return (length (heap s)),
            s\<lparr>heap := heap s @ [filter (\<lambda>(k, v). contains k p) (deref s a)]\<rparr>)"
  using matching_plain_gen[of p "[]" "deref s a" e] assms
  by (simp add: getLogDriverConfig_matching outcome_def)

text \<open>
  Claim C1, as amended. The claim says that the partitioner returns exactly the entries
  whose key starts with the prefix followed by a dot. The code matches the pattern
  \<^verbatim>\<open>logDriver + ".*"\<close>, in which the dot stands for any character. For every plain
  prefix \<open>p\<close> and every options map (keys distinct, as in any Go map),
  \<^verbatim>\<open>getLogDriverConfig\<close> returns a fresh map that holds only entries of the options
  map, among them every entry whose key starts with \<open>p\<close>, whether or not a dot follows
  (so \<^verbatim>\<open>"remoteextra.level"\<close> is captured for the prefix \<^verbatim>\<open>"remote"\<close>), and no entry
  whose key does not contain \<open>p\<close>.
\<close>

theorem getLogDriverConfig_starts_with:
  assumes "plain p" and "distinct (map fst (deref s a))"
  shows "fst (getLogDriverConfig e p a s) = Return (length (heap s)) \<and>
         set (deref (snd (getLogDriverConfig e p a s)) (length (heap s))) \<subseteq> set (deref s a) \<and>
         distinct (map fst (deref (snd (getLogDriverConfig e p a s)) (length (heap s)))) \<and>
         (\<forall>(k, v) \<in> set (deref s a).
            prefix p k \<longrightarrow> (k, v) \<in> set (deref (snd (getLogDriverConfig e p a s)) (length (heap s)))) \<and>
         (\<forall>(k, v) \<in> set (deref (snd (getLogDriverConfig e p a s)) (length (heap s))).
            contains k p)"
proof -
  have "distinct (map fst (filter (\<lambda>(k, v). contains k p) (deref s a)))"
    using assms(2) by (simp add: distinct_map_filter)
  then show ?thesis
    by (auto simp: getLogDriverConfig_plain[OF assms] prefix_contains)
qed

theorem getLogDriverConfig_starts_with_witness:
  "plain ''remote'' \<and>
   distinct (map fst (deref (init_world [(''remoteextra.level'', ''debug''), (''tag'', ''x'')]) 0)) \<and>
   (''remoteextra.level'', ''debug'') \<in>
     set (deref (snd (getLogDriverConfig env_ok ''remote'' 0
            (init_world [(''remoteextra.level'', ''debug''), (''tag'', ''x'')]))) 1)"
proof -
  let ?w = "init_world [(''remoteextra.level'', ''debug''), (''tag'', ''x'')]"
  have p: "plain ''remote''" by (simp add: plain_def regexp_meta_def)
  have d: "distinct (map fst (deref ?w 0))" by (simp add: deref_def init_world_def)
  have m: "(''remoteextra.level'', ''debug'') \<in> set (deref ?w 0)"
    by (simp add: deref_def init_world_def)
  have l: "length (heap ?w) = 1" by (simp add: init_world_def)
  from getLogDriverConfig_starts_with[OF p d, of env_ok] m l
  have "(''remoteextra.level'', ''debug'') \<in>
     set (deref (snd (getLogDriverConfig env_ok ''remote'' 0 ?w)) 1)"
    by fastforce
  with p d show ?thesis by simp
qed

text \<open>
  The claim fails at the prefix \<^verbatim>\<open>"remote"\<close> and the map with the one key
  \<^verbatim>\<open>"remoteextra.level"\<close>: the code captures the entry, the specification's partitioner
  does not.
\<close>

theorem getLogDriverConfig_remoteextra:
  "fst (getLogDriverConfig env_ok ''remote'' 0 (init_world [(''remoteextra.level'', ''debug'')]))
     = Return 1 \<and>
   deref (snd (getLogDriverConfig env_ok ''remote'' 0
            (init_world [(''remoteextra.level'', ''debug'')]))) 1
     = [(''remoteextra.level'', ''debug'')] \<and>
   prefix_partition ''remote'' [(''remoteextra.level'', ''debug'')] = [] \<and>
   deref (snd (getLogDriverConfig env_ok ''remote'' 0
            (init_world [(''remoteextra.level'', ''debug'')]))) 1
     \<noteq> prefix_partition ''remote'' [(''remoteextra.level'', ''debug'')]"
  by (simp add: eval_defs prefix_partition_def)

text \<open>
  The search is not anchored either, so a key that contains the prefix after its first
  character is captured as well, which the comment of \<^verbatim>\<open>getLogDriverConfig\<close> (pairs
  that "start with string logDriver") does not intend. With the options
  \<^verbatim>\<open>{"xsyslog.level": "debug"}\<close> the key is captured for \<^verbatim>\<open>"syslog"\<close>, fails the
  validation and makes \<^verbatim>\<open>SetupLogging\<close> return an error.
\<close>

lemma getLogDriverConfig_not_anchored:
  "deref (snd (getLogDriverConfig env_ok ''remote'' 0
            (init_world [(''xremote.level'', ''debug'')]))) 1
     = [(''xremote.level'', ''debug'')] \<and>
   fst (SetupLogging env_ok [] 0 ''tag'' (init_world [(''xsyslog.level'', ''debug'')]))
     = Return (Some (UnsupportedOption ''xsyslog.level'' ''syslog''))"
  by (simp add: eval_defs)

subsection \<open>Severity levels\<close>

lemma AllLevels_cases:
  "l \<in> set AllLevels \<Longrightarrow> l = 0 \<or> l = 1 \<or> l = 2 \<or> l = 3 \<or> l = 4 \<or> l = 5"
  by (simp add: AllLevels_def)

lemma setFireLevels_at_or_above:
  "l \<in> set AllLevels \<Longrightarrow> setFireLevels l = levels_at_or_above l"
  by (auto dest!: AllLevels_cases simp: setFireLevels_def levels_at_or_above_def AllLevels_def)

lemma setFireLevels_take:
  "l \<in> set AllLevels \<Longrightarrow> setFireLevels l = take (Suc l) AllLevels"
  by (auto dest!: AllLevels_cases simp: setFireLevels_def AllLevels_def)

lemma ParseLevel_AllLevels: "ParseLevel lvl = Inr l \<Longrightarrow> l \<in> set AllLevels"
  by (auto simp: ParseLevel_def AllLevels_def Let_def split: if_splits)

text \<open>
  Claim C10. For each of the six levels, \<open>setFireLevels\<close> returns a non-empty prefix of
  the enumeration \<open>AllLevels\<close> (Panic, Fatal, Error, Warn, Info, Debug), so the branch
  that returns nil is not taken; and when \<open>l1\<close> is at least as severe as \<open>l2\<close>, the
  levels of \<open>l1\<close> are a prefix, hence a subset, of the levels of \<open>l2\<close>.
\<close>

theorem setFireLevels_prefix:
  "(\<forall>l \<in> set AllLevels. setFireLevels l \<noteq> [] \<and> prefix (setFireLevels l) AllLevels) \<and>
   (\<forall>l1 \<in> set AllLevels. \<forall>l2 \<in> set AllLevels. l1 \<le> l2 \<longrightarrow>
      prefix (setFireLevels l1) (setFireLevels l2) \<and>
      set (setFireLevels l1) \<subseteq> set (setFireLevels l2))"
proof (intro conjI ballI impI)
  fix l assume l: "l \<in> set AllLevels"
  then show "setFireLevels l \<noteq> []"
    by (auto dest!: AllLevels_cases simp: setFireLevels_def)
  show "prefix (setFireLevels l) AllLevels"
    using l by (simp add: setFireLevels_take take_is_prefix)
next
  fix l1 l2 assume l: "l1 \<in> set AllLevels" "l2 \<in> set AllLevels" and le: "l1 \<le> l2"
  have "take (Suc l1) AllLevels = take (Suc l1) (take (Suc l2) AllLevels)"
    using le by (simp add: min_def)
  then have "prefix (take (Suc l1) AllLevels) (take (Suc l2) AllLevels)"
    by (metis take_is_prefix)
  then show p: "prefix (setFireLevels l1) (setFireLevels l2)"
    using l by (simp add: setFireLevels_take)
  then show "set (setFireLevels l1) \<subseteq> set (setFireLevels l2)"
    by (rule set_mono_prefix)
qed

theorem setFireLevels_prefix_witness:
  "ErrorLevel \<in> set AllLevels \<and> InfoLevel \<in> set AllLevels \<and> ErrorLevel \<le> InfoLevel \<and>
   setFireLevels ErrorLevel \<noteq> [] \<and> prefix (setFireLevels ErrorLevel) AllLevels \<and>
   prefix (setFireLevels ErrorLevel) (setFireLevels InfoLevel) \<and>
   set (setFireLevels ErrorLevel) \<subseteq> set (setFireLevels InfoLevel)"
proof -
  have a: "ErrorLevel \<in> set AllLevels" and b: "InfoLevel \<in> set AllLevels"
    by (simp_all add: AllLevels_def)
  have c: "ErrorLevel \<le> InfoLevel" by simp
  from setFireLevels_prefix a b c show ?thesis by blast
qed

subsection \<open>The installers\<close>

lemma setupFluentD_summary:
  "setupFluentD e v s =
     (case fluentD_hook e (deref s v) of
        Inl f \<Rightarrow> (Fatal f, s)
      | Inr h \<Rightarrow> (Return (), s\<lparr>std_Hooks := std_Hooks s @ [h]\<rparr>))"
  by (simp add: setupFluentD_def fluentD_hook_def Let_def split: sum.splits option.splits prod.splits)

lemma fluentD_hook_driver: "fluentD_hook e m = Inr h \<Longrightarrow> hook_driver h = ''fluentd''"
  by (auto simp: fluentD_hook_def Let_def split: sum.splits option.splits prod.splits if_splits)

text \<open>
  Claim C7. For each of the six levels \<open>setFireLevels\<close> returns the levels at or above
  it, most severe first; for Warn that is Panic, Fatal, Error, Warn. Whenever
  \<^verbatim>\<open>setupFluentD\<close> returns, the hook it has added carries this enumeration for the
  configured level (the option \<^verbatim>\<open>fluentd.level\<close>, or \<^verbatim>\<open>"info"\<close> without it), not a
  single threshold.
\<close>

theorem fluentd_levels_enumerated:
  "(\<forall>l \<in> set AllLevels. setFireLevels l = levels_at_or_above l) \<and>
   setFireLevels WarnLevel = [PanicLevel, FatalLevel, ErrorLevel, WarnLevel] \<and>
   (fst (setupFluentD e v s) = Return () \<longrightarrow>
      (\<exists>level host port.
          ParseLevel (case map_of (deref s v) ''fluentd.level'' of Some l \<Rightarrow> l | None \<Rightarrow> ''info'')
            = Inr level \<and>
          std_Hooks (snd (setupFluentD e v s))
            = std_Hooks s @ [FluentHook host port (map_of (deref s v) ''fluentd.tag'')
                               (levels_at_or_above level)]))"
proof (intro conjI ballI impI)
  fix l assume "l \<in> set AllLevels"
  then show "setFireLevels l = levels_at_or_above l" by (rule setFireLevels_at_or_above)
next
  show "setFireLevels WarnLevel = [PanicLevel, FatalLevel, ErrorLevel, WarnLevel]"
    by (simp add: setFireLevels_def)
next
  assume r: "fst (setupFluentD e v s) = Return ()"
  then obtain level where
    pl: "ParseLevel (case map_of (deref s v) ''fluentd.level'' of Some l \<Rightarrow> l | None \<Rightarrow> ''info'')
           = Inr level"
    by (auto simp: setupFluentD_def Let_def split: sum.splits)
  then have "setFireLevels level = levels_at_or_above level"
    using ParseLevel_AllLevels setFireLevels_at_or_above by blast
  with r pl show "\<exists>level host port.
          ParseLevel (case map_of (deref s v) ''fluentd.level'' of Some l \<Rightarrow> l | None \<Rightarrow> ''info'')
            = Inr level \<and>
          std_Hooks (snd (setupFluentD e v s))
            = std_Hooks s @ [FluentHook host port (map_of (deref s v) ''fluentd.tag'')
                               (levels_at_or_above level)]"
    by (auto simp: setupFluentD_def Let_def split: sum.splits option.splits prod.splits if_splits)
qed

theorem fluentd_levels_enumerated_witness:
  "WarnLevel \<in> set AllLevels \<and> setFireLevels WarnLevel = levels_at_or_above WarnLevel \<and>
   levels_at_or_above WarnLevel = [PanicLevel, FatalLevel, ErrorLevel, WarnLevel] \<and>
   fst (setupFluentD env_ok 0 (init_world [(''fluentd.level'', ''warn'')])) = Return () \<and>
   (\<exists>level host port.
      ParseLevel (case map_of (deref (init_world [(''fluentd.level'', ''warn'')]) 0) ''fluentd.level'' of
                    Some l \<Rightarrow> l | None \<Rightarrow> ''info'') = Inr level \<and>
      std_Hooks (snd (setupFluentD env_ok 0 (init_world [(''fluentd.level'', ''warn'')])))
        = std_Hooks (init_world [(''fluentd.level'', ''warn'')]) @
            [FluentHook host port (map_of (deref (init_world [(''fluentd.level'', ''warn'')]) 0) ''fluentd.tag'')
               (levels_at_or_above level)])"
proof -
  let ?w = "init_world [(''fluentd.level'', ''warn'')]"
  have m: "WarnLevel \<in> set AllLevels" by (simp add: AllLevels_def)
  have r: "fst (setupFluentD env_ok 0 ?w) = Return ()"
    by (simp add: eval_defs)
  note inst = fluentd_levels_enumerated[of env_ok 0 ?w]
  from inst m have 1: "setFireLevels WarnLevel = levels_at_or_above WarnLevel" by blast
  from inst have 2: "setFireLevels WarnLevel = [PanicLevel, FatalLevel, ErrorLevel, WarnLevel]" by blast
  from inst r have 3: "\<exists>level host port.
      ParseLevel (case map_of (deref ?w 0) ''fluentd.level'' of Some l \<Rightarrow> l | None \<Rightarrow> ''info'') = Inr level \<and>
      std_Hooks (snd (setupFluentD env_ok 0 ?w))
        = std_Hooks ?w @ [FluentHook host port (map_of (deref ?w 0) ''fluentd.tag'')
               (levels_at_or_above level)]" by blast
  from m r 1 2 3 show ?thesis by simp
qed

subsection \<open>The loop over the log drivers\<close>

text \<open>When the options map is a map of the store, the loop does what \<open>range_summary\<close>
  says: it appends the new maps to the store and the new hooks to the logger.\<close>

lemma range_summary_correct:
  "a < length (heap s) \<Longrightarrow>
   SetupLogging_range e ls a s =
     (case range_summary e ls (heap s ! a) of
        (r, hs, ms) \<Rightarrow> (r, s\<lparr>heap := heap s @ ms, std_Hooks := std_Hooks s @ hs\<rparr>))"
proof (induction ls arbitrary: s)
  case Nil
  then show ?case by simp
next
  case (Cons l ls)
  obtain fo acc where m: "matching_entries e l (heap s ! a) [] = (fo, acc)"
    by (cases "matching_entries e l (heap s ! a) []")
  let ?s1 = "s\<lparr>heap := heap s @ [acc]\<rparr>"
  have g: "getLogDriverConfig e l a s = (outcome fo (length (heap s)), ?s1)"
    using Cons.prems m by (simp add: getLogDriverConfig_matching deref_valid)
  have a1: "a < length (heap ?s1)" using Cons.prems by simp
  have h1: "heap ?s1 ! a = heap s ! a" using Cons.prems by (simp add: nth_append)
  show ?case
  proof (cases fo)
    case (Some f)
    then show ?thesis using g m by (simp add: outcome_def)
  next
    case None
    note fo = None
    show ?thesis
    proof (cases "l = ''syslog''")
      case True
      from Cons.IH[OF a1] show ?thesis
        using g m fo True h1 by (simp add: outcome_def split: prod.splits)
    next
      case False
      note ns = False
      show ?thesis
      proof (cases "l = ''fluentd''")
        case False
        then show ?thesis using g m fo ns by (simp add: outcome_def)
      next
        case True
        note fl = True
        show ?thesis
        proof (cases "validateOpts l acc fluentDOpts")
          case (Some err)
          then show ?thesis using g m fo ns fl by (simp add: outcome_def)
        next
          case None
          note vo = None
          show ?thesis
          proof (cases "fluentD_hook e acc")
            case (Inl f)
            then show ?thesis using g m fo ns fl vo
              by (simp add: outcome_def setupFluentD_summary)
          next
            case (Inr h)
            let ?s2 = "?s1\<lparr>std_Hooks := std_Hooks ?s1 @ [h]\<rparr>"
            have a2: "a < length (heap ?s2)" using Cons.prems by simp
            have h2: "heap ?s2 ! a = heap s ! a" using Cons.prems by (simp add: nth_append)
            from Cons.IH[OF a2] show ?thesis
              using g m fo ns fl vo Inr h2
              by (simp add: outcome_def setupFluentD_summary split: prod.splits)
          qed
        qed
      qed
    qed
  qed
qed

lemma range_summary_hooks:
  "range_summary e ls m = (r, hs, ms) \<Longrightarrow> \<forall>h \<in> set hs. hook_driver h = ''fluentd''"
proof (induction ls arbitrary: r hs ms)
  case Nil
  then show ?case by simp
next
  case (Cons l ls)
  then show ?case
    by (auto split: prod.splits option.splits if_splits sum.splits dest: fluentD_hook_driver)
qed

lemma range_summary_count:
  "range_summary e ls m = (Return None, hs, ms) \<Longrightarrow> length hs = count_list ls ''fluentd''"
proof (induction ls arbitrary: hs ms)
  case Nil
  then show ?case by simp
next
  case (Cons l ls)
  then show ?case
    by (auto split: prod.splits option.splits if_splits sum.splits)
qed

lemma range_summary_removeAll:
  "fst (range_summary e (removeAll ''syslog'' ls) m) = fst (range_summary e ls m) \<and>
   fst (snd (range_summary e (removeAll ''syslog'' ls) m)) = fst (snd (range_summary e ls m))"
proof (induction ls)
  case Nil
  then show ?case by simp
next
  case (Cons l ls)
  show ?case
  proof (cases "l = ''syslog''")
    case True
    have "fst (matching_entries e ''syslog'' m []) = None"
      by (rule matching_plain_fst[OF plain_syslog])
    then show ?thesis using Cons True
      by (auto split: prod.splits option.splits)
  next
    case False
    then show ?thesis using Cons
      by (auto split: prod.splits option.splits sum.splits)
  qed
qed

lemma range_summary_validated:
  "validateOpts ''fluentd'' (snd (matching_entries e ''fluentd'' m [])) fluentDOpts = None \<Longrightarrow>
   fst (range_summary e ls m) \<noteq> Return (Some (UnsupportedOption k d))"
proof (induction ls)
  case Nil
  then show ?case by simp
next
  case (Cons l ls)
  then show ?case
    by (auto split: prod.splits option.splits sum.splits)
qed

lemma validateOpts_error:
  "validateOpts d m supp = Some err \<Longrightarrow> \<exists>k. err = UnsupportedOption k d"
  by (induction m) (auto split: if_splits)

lemma range_summary_unsupported:
  "range_summary e ls m = (Return (Some (UnsupportedOption k d)), hs, ms) \<Longrightarrow>
   d = ''fluentd'' \<and> hs = []"
proof (induction ls arbitrary: hs ms)
  case Nil
  then show ?case by simp
next
  case (Cons l ls)
  obtain fo acc where ma: "matching_entries e l m [] = (fo, acc)" by (cases "matching_entries e l m []")
  show ?case
  proof (cases "l = ''fluentd'' \<and> fo = None \<and> validateOpts l acc fluentDOpts = None")
    case True
    then have "validateOpts ''fluentd'' (snd (matching_entries e ''fluentd'' m [])) fluentDOpts = None"
      using ma by auto
    from range_summary_validated[OF this, of ls k d] have
      "fst (range_summary e ls m) \<noteq> Return (Some (UnsupportedOption k d))" .
    then show ?thesis using Cons.prems ma True
      by (auto split: prod.splits option.splits sum.splits)
  next
    case False
    then show ?thesis using Cons ma
      by (auto split: prod.splits option.splits sum.splits if_splits dest: validateOpts_error)
  qed
qed

lemma SetupLogging_range_append:
  "fst (SetupLogging_range e xs a s) = Return None \<Longrightarrow>
   SetupLogging_range e (xs @ ys) a s = SetupLogging_range e ys a (snd (SetupLogging_range e xs a s))"
proof (induction xs arbitrary: s)
  case Nil
  then show ?case by simp
next
  case (Cons x xs)
  then show ?case
    by (auto split: prod.splits result.splits option.splits if_splits)
qed

subsection \<open>SetupLogging\<close>

lemma heap_setupFormatter [simp]: "heap (setupFormatter e s) = heap s"
  by (simp add: setupFormatter_def Let_def)

lemma std_Hooks_setupFormatter [simp]: "std_Hooks (setupFormatter e s) = std_Hooks s"
  by (simp add: setupFormatter_def Let_def)

lemma std_Level_setupFormatter [simp]: "std_Level (setupFormatter e s) = std_Level s"
  by (simp add: setupFormatter_def Let_def)

lemma std_Out_setupFormatter [simp]: "std_Out (setupFormatter e s) = std_Out s"
  by (simp add: setupFormatter_def Let_def)

lemma deref_setupFormatter [simp]: "deref (setupFormatter e s) a = deref s a"
  by (simp add: deref_def)

lemma SetupLogging_summary:
  assumes a: "a < length (heap s)"
  shows "SetupLogging e ls a tag s =
    (let sub = syslog_entries e (heap s ! a);
         s1 = (setupFormatter e s)\<lparr>heap := heap s @ [sub]\<rparr>
     in case validateOpts ''syslog'' sub syslogOpts of
          Some err \<Rightarrow> (Return (Some err), s1)
        | None \<Rightarrow>
            (case ParseLevel (syslog_level sub) of
               Inl err \<Rightarrow> (Fatal (FatalError err), s1\<lparr>std_Out := Discard\<rparr>)
             | Inr level \<Rightarrow>
                 if syslog_Dial e (syslogLevelMap_at level) tag
                 then (case range_summary e ls (heap s ! a) of
                         (r, hs, ms) \<Rightarrow>
                           (r, (setupFormatter e s)
                                 \<lparr>heap := heap s @ sub # ms, std_Out := Discard, std_Level := level,
                                  std_Hooks := std_Hooks s @ SyslogHook (syslogLevelMap_at level) tag # hs\<rparr>))
                 else (Fatal FatalSyslogHook, s1\<lparr>std_Out := Discard, std_Level := level\<rparr>)))"
proof -
  define sub where "sub = syslog_entries e (heap s ! a)"
  define s1 where "s1 = (setupFormatter e s)\<lparr>heap := heap s @ [sub]\<rparr>"
  have fo: "fst (matching_entries e ''syslog'' (heap s ! a) []) = None"
    by (rule matching_plain_fst[OF plain_syslog])
  have g: "getLogDriverConfig e ''syslog'' a (setupFormatter e s) = (Return (length (heap s)), s1)"
    using a fo by (simp add: getLogDriverConfig_matching outcome_def deref_valid s1_def sub_def
        syslog_entries_def)
  have d1: "deref s1 (length (heap s)) = sub"
    by (simp add: s1_def deref_def)
  show ?thesis
  proof (cases "validateOpts ''syslog'' sub syslogOpts")
    case (Some err)
    then show ?thesis using g d1
      by (simp add: SetupLogging_def Let_def sub_def[symmetric] s1_def[symmetric])
  next
    case None
    note vo = None
    have d2: "deref (s1\<lparr>std_Out := Discard\<rparr>) (length (heap s)) = sub"
      by (simp add: s1_def deref_def)
    show ?thesis
    proof (cases "ParseLevel (syslog_level sub)")
      case (Inl err)
      then show ?thesis using g d1 d2 vo
        by (simp add: SetupLogging_def Let_def sub_def[symmetric] s1_def[symmetric]
            setupSyslog_def syslog_level_def)
    next
      case (Inr level)
      note pl = Inr
      show ?thesis
      proof (cases "syslog_Dial e (syslogLevelMap_at level) tag")
        case False
        then show ?thesis using g d1 d2 vo pl
          by (simp add: SetupLogging_def Let_def sub_def[symmetric] s1_def[symmetric]
              setupSyslog_def syslog_level_def)
      next
        case True
        define s2 where "s2 = s1\<lparr>std_Out := Discard, std_Level := level,
          std_Hooks := std_Hooks s @ [SyslogHook (syslogLevelMap_at level) tag]\<rparr>"
        have ss: "setupSyslog e (length (heap s)) tag (s1\<lparr>std_Out := Discard\<rparr>) = (Return (), s2)"
          using d2 pl True by (simp add: setupSyslog_def syslog_level_def Let_def s2_def s1_def)
        have a2: "a < length (heap s2)" using a by (simp add: s2_def s1_def)
        have h2: "heap s2 ! a = heap s ! a" using a by (simp add: s2_def s1_def nth_append)
        have "SetupLogging e ls a tag s = SetupLogging_range e ls a s2"
          using g d1 vo ss by (simp add: SetupLogging_def)
        also have "\<dots> = (case range_summary e ls (heap s ! a) of
            (r, hs, ms) \<Rightarrow> (r, s2\<lparr>heap := heap s2 @ ms, std_Hooks := std_Hooks s2 @ hs\<rparr>))"
          using range_summary_correct[OF a2, of e ls] h2 by simp
        finally show ?thesis using vo pl True
          by (simp add: Let_def sub_def[symmetric] s2_def s1_def split: prod.splits)
      qed
    qed
  qed
qed

lemma SetupLogging_append:
  assumes "fst (SetupLogging e xs a tag s) = Return None"
  shows "SetupLogging e (xs @ ys) a tag s = SetupLogging_range e ys a (snd (SetupLogging e xs a tag s))"
  using assms SetupLogging_range_append
  by (auto simp: SetupLogging_def split: prod.splits result.splits option.splits)

lemma SetupLogging_empty:
  assumes "deref s a = []" and "syslog_Dial e LOG_INFO tag"
  shows "SetupLogging e [] a tag s =
           (Return None,
            (setupFormatter e s)\<lparr>heap := heap s @ [[]], std_Out := Discard, std_Level := InfoLevel,
               std_Hooks := std_Hooks s @ [SyslogHook LOG_INFO tag]\<rparr>)"
proof -
  let ?s1 = "(setupFormatter e s)\<lparr>heap := heap s @ [[]]\<rparr>"
  have g: "getLogDriverConfig e ''syslog'' a (setupFormatter e s) = (Return (length (heap s)), ?s1)"
    using assms(1) by (simp add: getLogDriverConfig_matching outcome_def)
  have d1: "deref ?s1 (length (heap s)) = []"
    by (simp add: deref_def)
  have d2: "deref (?s1\<lparr>std_Out := Discard\<rparr>) (length (heap s)) = []"
    by (simp add: deref_def)
  have pl: "ParseLevel ''info'' = Inr InfoLevel"
    by (simp add: ParseLevel_def lower_byte_def)
  have lm: "syslogLevelMap_at InfoLevel = LOG_INFO"
    by (simp add: syslogLevelMap_at_def syslogLevelMap_def)
  have ss: "setupSyslog e (length (heap s)) tag (?s1\<lparr>std_Out := Discard\<rparr>) =
              (Return (), ?s1\<lparr>std_Out := Discard, std_Level := InfoLevel,
                 std_Hooks := std_Hooks s @ [SyslogHook LOG_INFO tag]\<rparr>)"
    unfolding setupSyslog_def d2 using assms(2) pl lm by simp
  show ?thesis
    unfolding SetupLogging_def g using d1 ss by simp
qed

text \<open>
  Claim C8. With no log drivers and an empty options map, for any tag, \<^verbatim>\<open>SetupLogging\<close>
  returns the nil error and adds exactly one hook, the syslog hook, at the priority of the
  default level Info, which is also set as the level of the standard logger. (The syslog
  daemon has to accept the connection; otherwise \<^verbatim>\<open>setupSyslog\<close> ends the process.)
\<close>

theorem SetupLogging_defaults:
  assumes "deref s a = []" and "syslog_Dial e LOG_INFO tag"
  shows "fst (SetupLogging e [] a tag s) = Return None \<and>
         std_Hooks (snd (SetupLogging e [] a tag s)) = std_Hooks s @ [SyslogHook LOG_INFO tag] \<and>
         std_Level (snd (SetupLogging e [] a tag s)) = InfoLevel"
  by (simp add: SetupLogging_empty[OF assms])

theorem SetupLogging_defaults_witness:
  "deref (init_world []) 0 = [] \<and> syslog_Dial env_ok LOG_INFO ''tag'' \<and>
   fst (SetupLogging env_ok [] 0 ''tag'' (init_world [])) = Return None \<and>
   std_Hooks (snd (SetupLogging env_ok [] 0 ''tag'' (init_world []))) = [SyslogHook LOG_INFO ''tag''] \<and>
   std_Level (snd (SetupLogging env_ok [] 0 ''tag'' (init_world []))) = InfoLevel"
proof -
  have d: "deref (init_world []) 0 = []" by (simp add: deref_def init_world_def)
  have s: "syslog_Dial env_ok LOG_INFO ''tag''" by (simp add: env_ok_def)
  have h: "std_Hooks (init_world []) = []" by (simp add: init_world_def)
  from SetupLogging_defaults[OF d s] d s h show ?thesis by simp
qed

text \<open>
  Claim C2, as amended. The claim says that a log driver named more than once is
  installed once. The code has no such check: every \<^verbatim>\<open>"fluentd"\<close> of the list runs
  \<^verbatim>\<open>setupFluentD\<close>. Whenever \<^verbatim>\<open>SetupLogging\<close> returns the nil error, it has added the
  syslog hook and after it one fluentd hook for each occurrence of \<^verbatim>\<open>"fluentd"\<close> in the
  list.
\<close>

theorem SetupLogging_fluentd_hooks:
  assumes "a < length (heap s)" and "fst (SetupLogging e loggers a tag s) = Return None"
  shows "\<exists>p fs. std_Hooks (snd (SetupLogging e loggers a tag s)) = std_Hooks s @ SyslogHook p tag # fs \<and>
           (\<forall>h \<in> set fs. hook_driver h = ''fluentd'') \<and>
           length fs = count_list loggers ''fluentd''"
proof -
  obtain r hs ms where rs: "range_summary e loggers (heap s ! a) = (r, hs, ms)"
    by (cases "range_summary e loggers (heap s ! a)")
  from assms(2) have "r = Return None"
    unfolding SetupLogging_summary[OF assms(1)] using rs
    by (auto simp: Let_def split: option.splits sum.splits if_splits)
  with rs have "length hs = count_list loggers ''fluentd''"
    using range_summary_count by blast
  moreover have "\<forall>h \<in> set hs. hook_driver h = ''fluentd''"
    using range_summary_hooks[OF rs] .
  ultimately show ?thesis
    using assms(2) rs unfolding SetupLogging_summary[OF assms(1)]
    by (auto simp: Let_def split: option.splits sum.splits if_splits)
qed

theorem SetupLogging_fluentd_hooks_witness:
  "0 < length (heap (init_world [])) \<and>
   fst (SetupLogging env_ok [''fluentd'', ''syslog'', ''fluentd''] 0 ''tag'' (init_world [])) = Return None \<and>
   (\<exists>p fs. std_Hooks (snd (SetupLogging env_ok [''fluentd'', ''syslog'', ''fluentd''] 0 ''tag''
                (init_world []))) = std_Hooks (init_world []) @ SyslogHook p ''tag'' # fs \<and>
           (\<forall>h \<in> set fs. hook_driver h = ''fluentd'') \<and>
           length fs = count_list [''fluentd'', ''syslog'', ''fluentd''] ''fluentd'')"
proof -
  have a: "0 < length (heap (init_world []))" by (simp add: init_world_def)
  have r: "fst (SetupLogging env_ok [''fluentd'', ''syslog'', ''fluentd''] 0 ''tag'' (init_world []))
             = Return None"
    by (simp add: eval_defs)
  from a r SetupLogging_fluentd_hooks[OF a r] show ?thesis by blast
qed

text \<open>The claim fails at the list \<^verbatim>\<open>["fluentd", "fluentd"]\<close>: two fluentd hooks are
  installed.\<close>

theorem SetupLogging_fluentd_twice:
  "fst (SetupLogging env_ok [''fluentd'', ''fluentd''] 0 ''tag'' (init_world [])) = Return None \<and>
   std_Hooks (snd (SetupLogging env_ok [''fluentd'', ''fluentd''] 0 ''tag'' (init_world [])))
     = [SyslogHook LOG_INFO ''tag'',
        FluentHook ''localhost'' 24224 None [PanicLevel, FatalLevel, ErrorLevel, WarnLevel, InfoLevel],
        FluentHook ''localhost'' 24224 None [PanicLevel, FatalLevel, ErrorLevel, WarnLevel, InfoLevel]] \<and>
   count_list (map hook_driver
       (std_Hooks (snd (SetupLogging env_ok [''fluentd'', ''fluentd''] 0 ''tag'' (init_world [])))))
     ''fluentd'' = 2"
  by (simp add: eval_defs)

text \<open>
  Claim C3, as amended. The claim says that every call installs the syslog hook exactly
  once. A call whose syslog options fail the validation returns before
  \<^verbatim>\<open>setupSyslog\<close> and installs nothing. For every call whose syslog step goes through
  (the same call with an empty list returns the nil error), whatever the list of log
  drivers: the syslog hook is the first hook the call adds, every other hook it adds is a
  fluentd hook, and the occurrences of \<^verbatim>\<open>"syslog"\<close> in the list change neither the
  result nor the hooks.
\<close>

theorem SetupLogging_syslog_once:
  assumes a: "a < length (heap s)" and ok: "fst (SetupLogging e [] a tag s) = Return None"
  shows "\<exists>p fs.
           std_Hooks (snd (SetupLogging e [] a tag s)) = std_Hooks s @ [SyslogHook p tag] \<and>
           std_Hooks (snd (SetupLogging e loggers a tag s)) = std_Hooks s @ SyslogHook p tag # fs \<and>
           (\<forall>h \<in> set fs. hook_driver h = ''fluentd'') \<and>
           fst (SetupLogging e (removeAll ''syslog'' loggers) a tag s)
             = fst (SetupLogging e loggers a tag s) \<and>
           std_Hooks (snd (SetupLogging e (removeAll ''syslog'' loggers) a tag s))
             = std_Hooks (snd (SetupLogging e loggers a tag s))"
proof -
  define sub where "sub = syslog_entries e (heap s ! a)"
  from ok have vo: "validateOpts ''syslog'' sub syslogOpts = None"
    unfolding SetupLogging_summary[OF a] sub_def
    by (auto simp: Let_def split: option.splits sum.splits if_splits)
  from ok vo obtain level where pl: "ParseLevel (syslog_level sub) = Inr level"
    unfolding SetupLogging_summary[OF a] sub_def
    by (auto simp: Let_def split: option.splits sum.splits if_splits)
  from ok vo pl have dial: "syslog_Dial e (syslogLevelMap_at level) tag"
    unfolding SetupLogging_summary[OF a] sub_def
    by (auto simp: Let_def split: option.splits sum.splits if_splits)
  obtain r hs ms where rs: "range_summary e loggers (heap s ! a) = (r, hs, ms)"
    by (cases "range_summary e loggers (heap s ! a)")
  obtain r' hs' ms' where
    rs': "range_summary e (removeAll ''syslog'' loggers) (heap s ! a) = (r', hs', ms')"
    by (cases "range_summary e (removeAll ''syslog'' loggers) (heap s ! a)")
  from range_summary_removeAll[of e loggers "heap s ! a"] rs rs'
  have same: "r' = r" "hs' = hs" by simp_all
  have fl: "\<forall>h \<in> set hs. hook_driver h = ''fluentd''"
    using range_summary_hooks[OF rs] .
  have 1: "std_Hooks (snd (SetupLogging e [] a tag s))
             = std_Hooks s @ [SyslogHook (syslogLevelMap_at level) tag]"
    using vo pl dial unfolding SetupLogging_summary[OF a] sub_def[symmetric]
    by (simp add: Let_def)
  have 2: "std_Hooks (snd (SetupLogging e loggers a tag s))
             = std_Hooks s @ SyslogHook (syslogLevelMap_at level) tag # hs"
    using vo pl dial rs unfolding SetupLogging_summary[OF a] sub_def[symmetric]
    by (simp add: Let_def)
  have 3: "std_Hooks (snd (SetupLogging e (removeAll ''syslog'' loggers) a tag s))
             = std_Hooks s @ SyslogHook (syslogLevelMap_at level) tag # hs"
    using vo pl dial rs' same unfolding SetupLogging_summary[OF a] sub_def[symmetric]
    by (simp add: Let_def)
  have 4: "fst (SetupLogging e loggers a tag s) = r"
    using vo pl dial rs unfolding SetupLogging_summary[OF a] sub_def[symmetric]
    by (simp add: Let_def)
  have 5: "fst (SetupLogging e (removeAll ''syslog'' loggers) a tag s) = r"
    using vo pl dial rs' same unfolding SetupLogging_summary[OF a] sub_def[symmetric]
    by (simp add: Let_def)
  from 1 2 3 4 5 fl show ?thesis by auto
qed

theorem SetupLogging_syslog_once_witness:
  "0 < length (heap (init_world [(''syslog.level'', ''debug'')])) \<and>
   fst (SetupLogging env_ok [] 0 ''tag'' (init_world [(''syslog.level'', ''debug'')])) = Return None \<and>
   (\<exists>p fs.
      std_Hooks (snd (SetupLogging env_ok [] 0 ''tag'' (init_world [(''syslog.level'', ''debug'')])))
        = std_Hooks (init_world [(''syslog.level'', ''debug'')]) @ [SyslogHook p ''tag''] \<and>
      std_Hooks (snd (SetupLogging env_ok [''syslog'', ''fluentd'', ''syslog''] 0 ''tag''
                   (init_world [(''syslog.level'', ''debug'')])))
        = std_Hooks (init_world [(''syslog.level'', ''debug'')]) @ SyslogHook p ''tag'' # fs \<and>
      (\<forall>h \<in> set fs. hook_driver h = ''fluentd'') \<and>
      fst (SetupLogging env_ok (removeAll ''syslog'' [''syslog'', ''fluentd'', ''syslog'']) 0 ''tag''
             (init_world [(''syslog.level'', ''debug'')]))
        = fst (SetupLogging env_ok [''syslog'', ''fluentd'', ''syslog''] 0 ''tag''
                 (init_world [(''syslog.level'', ''debug'')])) \<and>
      std_Hooks (snd (SetupLogging env_ok (removeAll ''syslog'' [''syslog'', ''fluentd'', ''syslog'']) 0
                   ''tag'' (init_world [(''syslog.level'', ''debug'')])))
        = std_Hooks (snd (SetupLogging env_ok [''syslog'', ''fluentd'', ''syslog''] 0 ''tag''
                       (init_world [(''syslog.level'', ''debug'')]))))"
proof -
  let ?w = "init_world [(''syslog.level'', ''debug'')]"
  have a: "0 < length (heap ?w)" by (simp add: init_world_def)
  have r: "fst (SetupLogging env_ok [] 0 ''tag'' ?w) = Return None"
    by (simp add: eval_defs)
  from a r SetupLogging_syslog_once[OF a r, of "[''syslog'', ''fluentd'', ''syslog'']"]
  show ?thesis by blast
qed

text \<open>The claim fails at the options \<^verbatim>\<open>{"syslog.facility": "x"}\<close>: the call returns
  the error of the validation and no hook is installed.\<close>

theorem SetupLogging_syslog_rejected:
  "fst (SetupLogging env_ok [] 0 ''tag'' (init_world [(''syslog.facility'', ''x'')]))
     = Return (Some (UnsupportedOption ''syslog.facility'' ''syslog'')) \<and>
   std_Hooks (snd (SetupLogging env_ok [] 0 ''tag'' (init_world [(''syslog.facility'', ''x'')]))) = []"
  by (simp add: eval_defs)

subsection \<open>Validation\<close>

lemma validateOpts_None:
  "validateOpts d m supp = None \<longleftrightarrow> (\<forall>k \<in> fst ` set m. lookup_bool supp k)"
  by (induction m) (auto split: if_splits)

lemma validateOpts_Some:
  "validateOpts d m supp = Some err \<Longrightarrow>
   \<exists>k \<in> fst ` set m. \<not> lookup_bool supp k \<and> err = UnsupportedOption k d"
  by (induction m) (auto split: if_splits)

lemma SetupLogging_unsupported:
  assumes a: "a < length (heap s)"
    and r: "fst (SetupLogging e loggers a tag s) = Return (Some (UnsupportedOption k d))"
  shows "filter (\<lambda>h. hook_driver h = d) (std_Hooks (snd (SetupLogging e loggers a tag s)))
           = filter (\<lambda>h. hook_driver h = d) (std_Hooks s)"
proof -
  define sub where "sub = syslog_entries e (heap s ! a)"
  show ?thesis
  proof (cases "validateOpts ''syslog'' sub syslogOpts")
    case (Some err)
    then show ?thesis unfolding SetupLogging_summary[OF a] sub_def[symmetric]
      by (simp add: Let_def)
  next
    case None
    note vo = None
    from r vo obtain level where pl: "ParseLevel (syslog_level sub) = Inr level"
      unfolding SetupLogging_summary[OF a] sub_def[symmetric]
      by (auto simp: Let_def split: sum.splits)
    from r vo pl have dial: "syslog_Dial e (syslogLevelMap_at level) tag"
      unfolding SetupLogging_summary[OF a] sub_def[symmetric]
      by (auto simp: Let_def split: if_splits)
    obtain r' hs ms where rs: "range_summary e loggers (heap s ! a) = (r', hs, ms)"
      by (cases "range_summary e loggers (heap s ! a)")
    from r vo pl dial rs have "r' = Return (Some (UnsupportedOption k d))"
      unfolding SetupLogging_summary[OF a] sub_def[symmetric] by (simp add: Let_def)
    with rs range_summary_unsupported have "d = ''fluentd''" "hs = []" by blast+
    then show ?thesis using vo pl dial rs
      unfolding SetupLogging_summary[OF a] sub_def[symmetric] by (simp add: Let_def)
  qed
qed

text \<open>
  Claim C4. For every log driver and every map of options, \<^verbatim>\<open>validateOpts\<close> returns
  the nil error exactly when every key is in the table of supported options, and
  otherwise an error that names the log driver and a key of the map that is not in the
  table. When \<^verbatim>\<open>SetupLogging\<close> returns such an error for a log driver, it has installed
  no hook of that log driver. (In the tables of the program every key is bound to
  \<^verbatim>\<open>true\<close>, so a key is supported exactly when it is a key of the table.)
\<close>

theorem validateOpts_unsupported:
  "(validateOpts d m supp = None \<longleftrightarrow> (\<forall>k \<in> fst ` set m. lookup_bool supp k)) \<and>
   ((\<exists>k \<in> fst ` set m. \<not> lookup_bool supp k) \<longleftrightarrow>
    (\<exists>k \<in> fst ` set m. \<not> lookup_bool supp k \<and>
       validateOpts d m supp = Some (UnsupportedOption k d))) \<and>
   (a < length (heap s) \<and>
    fst (SetupLogging e loggers a tag s) = Return (Some (UnsupportedOption k' d')) \<longrightarrow>
      filter (\<lambda>h. hook_driver h = d') (std_Hooks (snd (SetupLogging e loggers a tag s)))
        = filter (\<lambda>h. hook_driver h = d') (std_Hooks s)) \<and>
   (lookup_bool syslogOpts x \<longleftrightarrow> x \<in> fst ` set syslogOpts) \<and>
   (lookup_bool fluentDOpts x \<longleftrightarrow> x \<in> fst ` set fluentDOpts)"
proof (intro conjI)
  show "lookup_bool syslogOpts x \<longleftrightarrow> x \<in> fst ` set syslogOpts"
    by (simp add: lookup_bool_def syslogOpts_def)
  show "lookup_bool fluentDOpts x \<longleftrightarrow> x \<in> fst ` set fluentDOpts"
    by (auto simp: lookup_bool_def fluentDOpts_def)
  show "validateOpts d m supp = None \<longleftrightarrow> (\<forall>k \<in> fst ` set m. lookup_bool supp k)"
    by (rule validateOpts_None)
  show "(\<exists>k \<in> fst ` set m. \<not> lookup_bool supp k) \<longleftrightarrow>
    (\<exists>k \<in> fst ` set m. \<not> lookup_bool supp k \<and>
       validateOpts d m supp = Some (UnsupportedOption k d))"
  proof
    assume "\<exists>k \<in> fst ` set m. \<not> lookup_bool supp k"
    then have "validateOpts d m supp \<noteq> None" by (simp add: validateOpts_None)
    then obtain err where "validateOpts d m supp = Some err" by blast
    from validateOpts_Some[OF this] this
    show "\<exists>k \<in> fst ` set m. \<not> lookup_bool supp k \<and>
       validateOpts d m supp = Some (UnsupportedOption k d)" by blast
  next
    assume "\<exists>k \<in> fst ` set m. \<not> lookup_bool supp k \<and>
       validateOpts d m supp = Some (UnsupportedOption k d)"
    then show "\<exists>k \<in> fst ` set m. \<not> lookup_bool supp k" by blast
  qed
  show "a < length (heap s) \<and>
    fst (SetupLogging e loggers a tag s) = Return (Some (UnsupportedOption k' d')) \<longrightarrow>
      filter (\<lambda>h. hook_driver h = d') (std_Hooks (snd (SetupLogging e loggers a tag s)))
        = filter (\<lambda>h. hook_driver h = d') (std_Hooks s)"
    using SetupLogging_unsupported by blast
qed

theorem validateOpts_unsupported_witness:
  "validateOpts ''fluentd'' [(''fluentd.tag'', ''t''), (''fluentd.bogus'', ''x'')] fluentDOpts
     = Some (UnsupportedOption ''fluentd.bogus'' ''fluentd'') \<and>
   validateOpts ''fluentd'' [(''fluentd.tag'', ''t'')] fluentDOpts = None \<and>
   0 < length (heap (init_world [(''fluentd.bogus'', ''x'')])) \<and>
   fst (SetupLogging env_ok [''fluentd''] 0 ''tag'' (init_world [(''fluentd.bogus'', ''x'')]))
     = Return (Some (UnsupportedOption ''fluentd.bogus'' ''fluentd'')) \<and>
   filter (\<lambda>h. hook_driver h = ''fluentd'')
     (std_Hooks (snd (SetupLogging env_ok [''fluentd''] 0 ''tag'' (init_world [(''fluentd.bogus'', ''x'')]))))
     = filter (\<lambda>h. hook_driver h = ''fluentd'') (std_Hooks (init_world [(''fluentd.bogus'', ''x'')]))"
proof -
  let ?w = "init_world [(''fluentd.bogus'', ''x'')]"
  have a: "0 < length (heap ?w)" by (simp add: init_world_def)
  have r: "fst (SetupLogging env_ok [''fluentd''] 0 ''tag'' ?w)
             = Return (Some (UnsupportedOption ''fluentd.bogus'' ''fluentd''))"
    by (simp add: eval_defs)
  have v1: "validateOpts ''fluentd'' [(''fluentd.tag'', ''t''), (''fluentd.bogus'', ''x'')] fluentDOpts
     = Some (UnsupportedOption ''fluentd.bogus'' ''fluentd'')"
    by (simp add: fluentDOpts_def lookup_bool_def)
  have v2: "\<forall>k \<in> fst ` set [(''fluentd.tag'', ''t'')]. lookup_bool fluentDOpts k"
    by (simp add: fluentDOpts_def lookup_bool_def)
  note inst = validateOpts_unsupported[of "''fluentd''" "[(''fluentd.tag'', ''t'')]" fluentDOpts 0 ?w
      env_ok "[''fluentd'']" "''tag''" "''fluentd.bogus''" "''fluentd''"]
  from inst v2 have "validateOpts ''fluentd'' [(''fluentd.tag'', ''t'')] fluentDOpts = None"
    by blast
  moreover from inst a r have "filter (\<lambda>h. hook_driver h = ''fluentd'')
     (std_Hooks (snd (SetupLogging env_ok [''fluentd''] 0 ''tag'' ?w)))
     = filter (\<lambda>h. hook_driver h = ''fluentd'') (std_Hooks ?w)"
    by blast
  ultimately show ?thesis using a r v1 by simp
qed

subsection \<open>Unknown log drivers and fatal errors\<close>

text \<open>
  Claim C5, as amended. The claim says that a list with an unknown name always ends in
  the error for that name. An earlier failure comes first: the call returns the error of
  the syslog validation or of the validation of an earlier \<^verbatim>\<open>"fluentd"\<close>, or ends the
  process, before it reaches the name. When the names before the unknown name \<open>u\<close> are
  processed without error (the call with the list \<open>pre\<close> returns the nil error) and the
  pattern built from \<open>u\<close> compiles (it always does when \<open>u\<close> is plain),
  \<^verbatim>\<open>SetupLogging\<close> returns the error for \<open>u\<close>, the names after \<open>u\<close> play no part, and the
  hooks and the level are those installed for \<open>pre\<close>. In particular, with an empty options
  map and a list that starts with \<open>u\<close>, the call returns the error for \<open>u\<close> and only the
  syslog hook is installed.
\<close>

theorem SetupLogging_unknown_driver:
  assumes u: "u \<noteq> ''syslog''" "u \<noteq> ''fluentd''"
  shows "(fst (SetupLogging e pre a tag s) = Return None \<and>
          (plain u \<or> (\<exists>v. fst (getLogDriverConfig e u a (snd (SetupLogging e pre a tag s))) = Return v))
          \<longrightarrow>
            fst (SetupLogging e (pre @ u # post) a tag s) = Return (Some (UnsupportedDriver u)) \<and>
            std_Hooks (snd (SetupLogging e (pre @ u # post) a tag s))
              = std_Hooks (snd (SetupLogging e pre a tag s)) \<and>
            std_Level (snd (SetupLogging e (pre @ u # post) a tag s))
              = std_Level (snd (SetupLogging e pre a tag s))) \<and>
         (deref s a = [] \<and> syslog_Dial e LOG_INFO tag \<longrightarrow>
            fst (SetupLogging e (u # post) a tag s) = Return (Some (UnsupportedDriver u)) \<and>
            std_Hooks (snd (SetupLogging e (u # post) a tag s))
              = std_Hooks s @ [SyslogHook LOG_INFO tag])"
proof (intro conjI impI)
  assume h: "fst (SetupLogging e pre a tag s) = Return None \<and>
          (plain u \<or> (\<exists>v. fst (getLogDriverConfig e u a (snd (SetupLogging e pre a tag s))) = Return v))"
  define s1 where "s1 = snd (SetupLogging e pre a tag s)"
  from h obtain v where v: "fst (getLogDriverConfig e u a s1) = Return v"
    unfolding s1_def using getLogDriverConfig_plain_Return by blast
  have eq: "SetupLogging e (pre @ u # post) a tag s = SetupLogging_range e (u # post) a s1"
    using h by (simp add: SetupLogging_append s1_def)
  have r: "SetupLogging_range e (u # post) a s1
             = (Return (Some (UnsupportedDriver u)), snd (getLogDriverConfig e u a s1))"
    using u v by (cases "getLogDriverConfig e u a s1") simp
  show "fst (SetupLogging e (pre @ u # post) a tag s) = Return (Some (UnsupportedDriver u))"
    unfolding eq r by simp
  show "std_Hooks (snd (SetupLogging e (pre @ u # post) a tag s))
          = std_Hooks (snd (SetupLogging e pre a tag s))"
    unfolding eq r by (simp add: getLogDriverConfig_logger s1_def)
  show "std_Level (snd (SetupLogging e (pre @ u # post) a tag s))
          = std_Level (snd (SetupLogging e pre a tag s))"
    unfolding eq r by (simp add: getLogDriverConfig_logger s1_def)
next
  assume h: "deref s a = [] \<and> syslog_Dial e LOG_INFO tag"
  define s1 where "s1 = snd (SetupLogging e [] a tag s)"
  have e0: "SetupLogging e [] a tag s = (Return None, s1)"
    using SetupLogging_empty[of s a e tag] h by (simp add: s1_def)
  have d1: "deref s1 a = []"
    using h SetupLogging_empty[of s a e tag]
    by (auto simp: s1_def deref_def nth_append split: if_splits)
  have g: "getLogDriverConfig e u a s1 = (Return (length (heap s1)), s1\<lparr>heap := heap s1 @ [[]]\<rparr>)"
    using d1 by (simp add: getLogDriverConfig_matching outcome_def)
  have eq: "SetupLogging e (u # post) a tag s = SetupLogging_range e (u # post) a s1"
    using SetupLogging_append[of e "[]" a tag s "u # post"] e0 by simp
  have hk: "std_Hooks s1 = std_Hooks s @ [SyslogHook LOG_INFO tag]"
    using h SetupLogging_empty[of s a e tag] by (simp add: s1_def)
  show "fst (SetupLogging e (u # post) a tag s) = Return (Some (UnsupportedDriver u))"
    unfolding eq using u g by simp
  show "std_Hooks (snd (SetupLogging e (u # post) a tag s)) = std_Hooks s @ [SyslogHook LOG_INFO tag]"
    unfolding eq using u g hk by simp
qed

theorem SetupLogging_unknown_driver_witness:
  "''unknown-sink'' \<noteq> ''syslog'' \<and> ''unknown-sink'' \<noteq> ''fluentd'' \<and>
   fst (SetupLogging env_ok [''fluentd''] 0 ''tag'' (init_world [])) = Return None \<and>
   plain ''unknown-sink'' \<and>
   fst (SetupLogging env_ok ([''fluentd''] @ ''unknown-sink'' # [''fluentd'']) 0 ''tag'' (init_world []))
     = Return (Some (UnsupportedDriver ''unknown-sink'')) \<and>
   std_Hooks (snd (SetupLogging env_ok ([''fluentd''] @ ''unknown-sink'' # [''fluentd'']) 0 ''tag''
                (init_world [])))
     = std_Hooks (snd (SetupLogging env_ok [''fluentd''] 0 ''tag'' (init_world []))) \<and>
   deref (init_world []) 0 = [] \<and> syslog_Dial env_ok LOG_INFO ''tag'' \<and>
   fst (SetupLogging env_ok [''unknown-sink''] 0 ''tag'' (init_world []))
     = Return (Some (UnsupportedDriver ''unknown-sink'')) \<and>
   std_Hooks (snd (SetupLogging env_ok [''unknown-sink''] 0 ''tag'' (init_world [])))
     = std_Hooks (init_world []) @ [SyslogHook LOG_INFO ''tag'']"
proof -
  have u: "''unknown-sink'' \<noteq> ''syslog''" "''unknown-sink'' \<noteq> ''fluentd''" by simp_all
  have r: "fst (SetupLogging env_ok [''fluentd''] 0 ''tag'' (init_world [])) = Return None"
    by (simp add: eval_defs)
  have p: "plain ''unknown-sink''" by (simp add: plain_def regexp_meta_def)
  have d: "deref (init_world []) 0 = []" by (simp add: deref_def init_world_def)
  have s: "syslog_Dial env_ok LOG_INFO ''tag''" by (simp add: env_ok_def)
  note inst = SetupLogging_unknown_driver[OF u, of env_ok "[''fluentd'']" 0 "''tag''" "init_world []"
      "[''fluentd'']"]
  note inst' = SetupLogging_unknown_driver[OF u, of env_ok "[]" 0 "''tag''" "init_world []" "[]"]
  from inst r p have 1:
    "fst (SetupLogging env_ok ([''fluentd''] @ ''unknown-sink'' # [''fluentd'']) 0 ''tag'' (init_world []))
       = Return (Some (UnsupportedDriver ''unknown-sink'')) \<and>
     std_Hooks (snd (SetupLogging env_ok ([''fluentd''] @ ''unknown-sink'' # [''fluentd'']) 0 ''tag''
                  (init_world [])))
       = std_Hooks (snd (SetupLogging env_ok [''fluentd''] 0 ''tag'' (init_world [])))"
    by blast
  from inst' d s have 2:
    "fst (SetupLogging env_ok [''unknown-sink''] 0 ''tag'' (init_world []))
       = Return (Some (UnsupportedDriver ''unknown-sink'')) \<and>
     std_Hooks (snd (SetupLogging env_ok [''unknown-sink''] 0 ''tag'' (init_world [])))
       = std_Hooks (init_world []) @ [SyslogHook LOG_INFO ''tag'']"
    by blast
  from 1 2 r p d s u show ?thesis by blast
qed

text \<open>The claim fails at the list \<^verbatim>\<open>["fluentd", "unknown-sink"]\<close> with the options
  \<^verbatim>\<open>{"fluentd.bogus": "x"}\<close>: the call returns the error of the validation.\<close>

theorem SetupLogging_unknown_after_rejected:
  "fst (SetupLogging env_ok [''fluentd'', ''unknown-sink''] 0 ''tag''
          (init_world [(''fluentd.bogus'', ''x'')]))
     = Return (Some (UnsupportedOption ''fluentd.bogus'' ''fluentd'')) \<and>
   fst (SetupLogging env_ok [''fluentd'', ''unknown-sink''] 0 ''tag''
          (init_world [(''fluentd.bogus'', ''x'')]))
     \<noteq> Return (Some (UnsupportedDriver ''unknown-sink''))"
  by (simp add: eval_defs)

text \<open>
  A name that is not a pattern is a third way not to reach the error: the log driver
  \<^verbatim>\<open>"*"\<close> makes \<^verbatim>\<open>regexp.MatchString\<close> fail on the first key of a non-empty options
  map, in every environment, and \<^verbatim>\<open>getLogDriverConfig\<close> ends the process before the
  switch is reached.
\<close>

lemma MatchString_repetition: "regexp_MatchString e (''*'' @ ''.*'') k = None"
  by (simp add: regexp_MatchString_def)

lemma SetupLogging_unknown_fatal:
  "fst (SetupLogging env_ok [''*''] 0 ''tag'' (init_world [(''syslog.level'', ''info'')]))
     = Fatal (FatalParsingKey ''syslog.level'' ''*'')"
  by (simp add: eval_defs)

text \<open>
  Claim C6. In both installers a level option that \<^verbatim>\<open>ParseLevel\<close> rejects ends the
  process through \<^verbatim>\<open>logrus.Fatal\<close> with the error of \<^verbatim>\<open>ParseLevel\<close>; nothing is
  returned to the caller. In particular, with the list \<^verbatim>\<open>["fluentd"]\<close> and the options
  \<^verbatim>\<open>{"fluentd.level": "bogus"}\<close> the validation of the fluentd options succeeds, and
  \<^verbatim>\<open>SetupLogging\<close> ends the process with that error after the syslog hook has been
  installed (the syslog daemon accepting the connection).
\<close>

theorem level_parse_failure_is_fatal:
  "(map_of (deref s v) ''syslog.level'' = Some l \<and> ParseLevel l = Inl err \<longrightarrow>
      setupSyslog e v tag s = (Fatal (FatalError err), s)) \<and>
   (map_of (deref s v) ''fluentd.level'' = Some l \<and> ParseLevel l = Inl err \<longrightarrow>
      setupFluentD e v s = (Fatal (FatalError err), s)) \<and>
   (a < length (heap s) \<and> heap s ! a = [(''fluentd.level'', ''bogus'')] \<and> syslog_Dial e LOG_INFO tag \<longrightarrow>
      validateOpts ''fluentd'' [(''fluentd.level'', ''bogus'')] fluentDOpts = None \<and>
      fst (SetupLogging e [''fluentd''] a tag s) = Fatal (FatalError (NotValidLevel ''bogus'')) \<and>
      std_Hooks (snd (SetupLogging e [''fluentd''] a tag s)) = std_Hooks s @ [SyslogHook LOG_INFO tag])"
proof (intro conjI impI)
  assume "map_of (deref s v) ''syslog.level'' = Some l \<and> ParseLevel l = Inl err"
  then show "setupSyslog e v tag s = (Fatal (FatalError err), s)"
    by (simp add: setupSyslog_def)
next
  assume "map_of (deref s v) ''fluentd.level'' = Some l \<and> ParseLevel l = Inl err"
  then show "setupFluentD e v s = (Fatal (FatalError err), s)"
    by (simp add: setupFluentD_def)
next
  assume h: "a < length (heap s) \<and> heap s ! a = [(''fluentd.level'', ''bogus'')] \<and> syslog_Dial e LOG_INFO tag"
  show "validateOpts ''fluentd'' [(''fluentd.level'', ''bogus'')] fluentDOpts = None"
    by (simp add: fluentDOpts_def lookup_bool_def)
  have m1: "syslog_entries e (heap s ! a) = []"
    using h by (simp add: syslog_entries_def regexp_MatchString_def plain_def regexp_meta_def)
  have m2: "matching_entries e ''fluentd'' (heap s ! a) [] = (None, [(''fluentd.level'', ''bogus'')])"
    using h by (simp add: regexp_MatchString_def plain_def regexp_meta_def)
  have pl: "ParseLevel (syslog_level []) = Inr InfoLevel"
    by (simp add: syslog_level_def ParseLevel_def lower_byte_def)
  have fh: "fluentD_hook e [(''fluentd.level'', ''bogus'')] = Inl (FatalError (NotValidLevel ''bogus''))"
    by (simp add: fluentD_hook_def ParseLevel_def lower_byte_def)
  have rs: "range_summary e [''fluentd''] (heap s ! a)
              = (Fatal (FatalError (NotValidLevel ''bogus'')), [], [[(''fluentd.level'', ''bogus'')]])"
    using m2 fh by (simp add: fluentDOpts_def lookup_bool_def)
  have lm: "syslogLevelMap_at InfoLevel = LOG_INFO"
    by (simp add: syslogLevelMap_at_def syslogLevelMap_def)
  from h have a: "a < length (heap s)" by simp
  show "fst (SetupLogging e [''fluentd''] a tag s) = Fatal (FatalError (NotValidLevel ''bogus''))"
    unfolding SetupLogging_summary[OF a] using h m1 pl rs lm by (simp add: Let_def)
  show "std_Hooks (snd (SetupLogging e [''fluentd''] a tag s)) = std_Hooks s @ [SyslogHook LOG_INFO tag]"
    unfolding SetupLogging_summary[OF a] using h m1 pl rs lm by (simp add: Let_def)
qed

theorem level_parse_failure_is_fatal_witness:
  "map_of (deref (init_world [(''fluentd.level'', ''bogus'')]) 0) ''fluentd.level'' = Some ''bogus'' \<and>
   ParseLevel ''bogus'' = Inl (NotValidLevel ''bogus'') \<and>
   setupFluentD env_ok 0 (init_world [(''fluentd.level'', ''bogus'')])
     = (Fatal (FatalError (NotValidLevel ''bogus'')), init_world [(''fluentd.level'', ''bogus'')]) \<and>
   map_of (deref (init_world [(''syslog.level'', ''bogus'')]) 0) ''syslog.level'' = Some ''bogus'' \<and>
   setupSyslog env_ok 0 ''tag'' (init_world [(''syslog.level'', ''bogus'')])
     = (Fatal (FatalError (NotValidLevel ''bogus'')), init_world [(''syslog.level'', ''bogus'')]) \<and>
   0 < length (heap (init_world [(''fluentd.level'', ''bogus'')])) \<and>
   heap (init_world [(''fluentd.level'', ''bogus'')]) ! 0 = [(''fluentd.level'', ''bogus'')] \<and>
   syslog_Dial env_ok LOG_INFO ''tag'' \<and>
   fst (SetupLogging env_ok [''fluentd''] 0 ''tag'' (init_world [(''fluentd.level'', ''bogus'')]))
     = Fatal (FatalError (NotValidLevel ''bogus''))"
proof -
  let ?wf = "init_world [(''fluentd.level'', ''bogus'')]"
  let ?ws = "init_world [(''syslog.level'', ''bogus'')]"
  have mf: "map_of (deref ?wf 0) ''fluentd.level'' = Some ''bogus''"
    by (simp add: deref_def init_world_def)
  have ms: "map_of (deref ?ws 0) ''syslog.level'' = Some ''bogus''"
    by (simp add: deref_def init_world_def)
  have pl: "ParseLevel ''bogus'' = Inl (NotValidLevel ''bogus'')"
    by (simp add: ParseLevel_def lower_byte_def)
  have a: "0 < length (heap ?wf)" "heap ?wf ! 0 = [(''fluentd.level'', ''bogus'')]"
    by (simp_all add: init_world_def)
  have s: "syslog_Dial env_ok LOG_INFO ''tag''" by (simp add: env_ok_def)
  note t1 = level_parse_failure_is_fatal[of ?wf 0 "''bogus''" "NotValidLevel ''bogus''" env_ok "''tag''" 0]
  note t2 = level_parse_failure_is_fatal[of ?ws 0 "''bogus''" "NotValidLevel ''bogus''" env_ok "''tag''" 0]
  from t1 mf pl have 1: "setupFluentD env_ok 0 ?wf = (Fatal (FatalError (NotValidLevel ''bogus'')), ?wf)"
    by blast
  from t2 ms pl have 2: "setupSyslog env_ok 0 ''tag'' ?ws = (Fatal (FatalError (NotValidLevel ''bogus'')), ?ws)"
    by blast
  from t1 a s have 3: "fst (SetupLogging env_ok [''fluentd''] 0 ''tag'' ?wf)
     = Fatal (FatalError (NotValidLevel ''bogus''))"
    by blast
  from mf ms pl a s 1 2 3 show ?thesis by simp
qed

subsection \<open>The options map of the caller\<close>

text \<open>
  Claim C9. \<^verbatim>\<open>getLogDriverConfig\<close> and \<^verbatim>\<open>SetupLogging\<close> leave the options map as it
  was: after the call, whatever its outcome, every map that was in the store before is
  unchanged (the store has only grown), so the options map holds the same keys with the
  same values.
\<close>

theorem options_map_unchanged:
  assumes "a < length (heap s)"
  shows "prefix (heap s) (heap (snd (getLogDriverConfig e d a s))) \<and>
         deref (snd (getLogDriverConfig e d a s)) a = deref s a \<and>
         prefix (heap s) (heap (snd (SetupLogging e loggers a tag s))) \<and>
         deref (snd (SetupLogging e loggers a tag s)) a = deref s a"
proof -
  have 1: "prefix (heap s) (heap (snd (getLogDriverConfig e d a s)))"
    by (simp add: getLogDriverConfig_matching)
  have 2: "prefix (heap s) (heap (snd (SetupLogging e loggers a tag s)))"
    unfolding SetupLogging_summary[OF assms]
    by (auto simp: Let_def split: option.splits sum.splits prod.splits)
  have nth: "a < length h \<and> h ! a = heap s ! a" if "prefix (heap s) h" for h
    using that assms by (auto simp: prefix_def nth_append)
  from nth[OF 1] nth[OF 2] 1 2 show ?thesis
    using assms unfolding deref_def by simp
qed

theorem options_map_unchanged_witness:
  "0 < length (heap (init_world [(''fluentd.tag'', ''agent''), (''syslog.level'', ''debug'')])) \<and>
   deref (snd (getLogDriverConfig env_ok ''fluentd'' 0
            (init_world [(''fluentd.tag'', ''agent''), (''syslog.level'', ''debug'')]))) 0
     = [(''fluentd.tag'', ''agent''), (''syslog.level'', ''debug'')] \<and>
   deref (snd (SetupLogging env_ok [''fluentd''] 0 ''tag''
            (init_world [(''fluentd.tag'', ''agent''), (''syslog.level'', ''debug'')]))) 0
     = [(''fluentd.tag'', ''agent''), (''syslog.level'', ''debug'')]"
proof -
  let ?w = "init_world [(''fluentd.tag'', ''agent''), (''syslog.level'', ''debug'')]"
  have a: "0 < length (heap ?w)" by (simp add: init_world_def)
  have d: "deref ?w 0 = [(''fluentd.tag'', ''agent''), (''syslog.level'', ''debug'')]"
    by (simp add: deref_def init_world_def)
  from options_map_unchanged[OF a, of env_ok "''fluentd''" "[''fluentd'']" "''tag''"] a d
  show ?thesis by simp
qed


end
